theory Spec2Isabelle
  imports Complex_Main "HOL-Library.AList" "HOL-Library.Sublist"
begin

section \<open>Python strings and values\<close>

text \<open>
  A Python \<open>str\<close> is a sequence of Unicode code points. Code points are natural numbers;
  \<open>str_of\<close> writes an ASCII literal as such a sequence.
\<close>

type_synonym codepoint = nat
type_synonym pystr = "codepoint list"

definition str_of :: "string \<Rightarrow> pystr" where
  "str_of s = map of_char s"

text \<open>
  The JSON values that occur in the fields this development reads: \<open>null\<close> (Python
  \<open>None\<close>) and strings. A JSON object (a Python \<open>dict\<close>) is an association list in
  insertion order; \<open>d.get(k)\<close> is \<open>None\<close> for a missing key, \<open>d[k] = v\<close> overwrites in
  place or appends.
\<close>

datatype pyval = PyNone | PyStr pystr

type_synonym pydict = "(pystr \<times> pyval) list"

definition dict_get :: "pydict \<Rightarrow> pystr \<Rightarrow> pyval" where
  "dict_get d k = (case map_of d k of None \<Rightarrow> PyNone | Some v \<Rightarrow> v)"

definition dict_set :: "pydict \<Rightarrow> pystr \<Rightarrow> pyval \<Rightarrow> pydict" where
  "dict_set d k v = AList.update k v d"

section \<open>The Unicode database used by the string methods\<close>

text \<open>
  \<open>str.lower\<close>, \<open>unicodedata.normalize("NFKD", _)\<close>, \<open>unicodedata.combining\<close>,
  \<open>str.isalnum\<close> and \<open>str.isspace\<close> are functions of the Python runtime, driven by the
  tables of the Unicode character database. The tables are a parameter of the model:
  every function below takes them as a \<open>unicode_db\<close>, and a theorem stated for an arbitrary
  \<open>U\<close> holds whatever the tables contain.
\<close>

record unicode_db =
  u_lower :: "pystr \<Rightarrow> pystr"
  u_nfkd :: "pystr \<Rightarrow> pystr"
  u_combining :: "codepoint \<Rightarrow> nat"
  u_isalnum :: "codepoint \<Rightarrow> bool"
  u_isspace :: "codepoint \<Rightarrow> bool"

text \<open>
  \<open>ucd\<close> is the database on a fragment of Unicode: Basic Latin (U+0000 to U+007F), the
  accented letters of Spanish (a, e, i, o, u with acute, u with diaeresis, n with tilde,
  and their capitals, all in the Latin-1 Supplement), the combining marks
  their decompositions produce (U+0301 acute, U+0303 tilde, U+0308 diaeresis, all of
  combining class 230, so canonical reordering never moves them) and U+2122 TRADE MARK
  SIGN (category So, no case mapping, compatibility decomposition \<open>TM\<close>). On strings of this
  fragment it computes what CPython computes; other code points are left alone and
  classified as neither alphanumeric nor space, which is not claimed to be what CPython
  does with them.
\<close>

definition lower_cp :: "codepoint \<Rightarrow> codepoint" where
  "lower_cp c =
     (if 65 \<le> c \<and> c \<le> 90 then c + 32
      else if c \<in> {193, 201, 205, 209, 211, 218, 220} then c + 32
      else c)"

definition decomp_cp :: "codepoint \<Rightarrow> pystr" where
  "decomp_cp c =
     (if c = 193 then [65, 769] else if c = 201 then [69, 769]
      else if c = 205 then [73, 769] else if c = 209 then [78, 771]
      else if c = 211 then [79, 769] else if c = 218 then [85, 769]
      else if c = 220 then [85, 776]
      else if c = 225 then [97, 769] else if c = 233 then [101, 769]
      else if c = 237 then [105, 769] else if c = 241 then [110, 771]
      else if c = 243 then [111, 769] else if c = 250 then [117, 769]
      else if c = 252 then [117, 776]
      else if c = 8482 then [84, 77]
      else [c])"

definition combining_cp :: "codepoint \<Rightarrow> nat" where
  "combining_cp c = (if c \<in> {769, 771, 776} then 230 else 0)"

definition isalnum_cp :: "codepoint \<Rightarrow> bool" where
  "isalnum_cp c \<longleftrightarrow>
     (48 \<le> c \<and> c \<le> 57) \<or> (65 \<le> c \<and> c \<le> 90) \<or> (97 \<le> c \<and> c \<le> 122)
     \<or> c \<in> {193, 201, 205, 209, 211, 218, 220, 225, 233, 237, 241, 243, 250, 252}"

definition isspace_cp :: "codepoint \<Rightarrow> bool" where
  "isspace_cp c \<longleftrightarrow> (9 \<le> c \<and> c \<le> 13) \<or> (28 \<le> c \<and> c \<le> 32)"

definition ucd :: unicode_db where
  "ucd = \<lparr> u_lower = map lower_cp,
           u_nfkd = (\<lambda>s. concat (map decomp_cp s)),
           u_combining = combining_cp,
           u_isalnum = isalnum_cp,
           u_isspace = isspace_cp \<rparr>"

section \<open>String methods\<close>

text \<open>\<open>s.strip()\<close>: drop leading and trailing whitespace.\<close>

definition str_strip :: "unicode_db \<Rightarrow> pystr \<Rightarrow> pystr" where
  "str_strip U s = rev (dropWhile (u_isspace U) (rev (dropWhile (u_isspace U) s)))"

text \<open>
  \<open>s.split()\<close>: the maximal runs of non-whitespace characters, in order. \<open>split_from\<close>
  carries the run being read.
\<close>

fun split_from :: "unicode_db \<Rightarrow> pystr \<Rightarrow> pystr \<Rightarrow> pystr list" where
  "split_from U cur [] = (if cur = [] then [] else [cur])"
| "split_from U cur (c # cs) =
     (if u_isspace U c
      then (if cur = [] then split_from U [] cs else cur # split_from U [] cs)
      else split_from U (cur @ [c]) cs)"

definition str_split :: "unicode_db \<Rightarrow> pystr \<Rightarrow> pystr list" where
  "str_split U s = split_from U [] s"

text \<open>\<open>' '.join(ws)\<close>.\<close>

fun join_space :: "pystr list \<Rightarrow> pystr" where
  "join_space [] = []"
| "join_space [w] = w"
| "join_space (w # v # ws) = w @ 32 # join_space (v # ws)"

text \<open>\<open>sub in s\<close> on strings: \<open>sub\<close> occurs in \<open>s\<close> as a contiguous block.\<close>

fun str_contains :: "pystr \<Rightarrow> pystr \<Rightarrow> bool" where
  "str_contains [] sub = (sub = [])"
| "str_contains (c # cs) sub = (prefix sub (c # cs) \<or> str_contains cs sub)"

section \<open>Name normalisation of the backend\<close>

text \<open>
  \<open>_normalize_name\<close> of \<open>eco_guia_backend.py\<close>. The argument is an optional string;
  \<open>not s\<close> holds for \<open>None\<close> and for the empty string. A character is kept when it is
  alphanumeric, whitespace, a hyphen (U+002D) or an underscore (U+005F), and replaced by a
  space (U+0020) otherwise.
\<close>

definition backend_normalize_name :: "unicode_db \<Rightarrow> pyval \<Rightarrow> pystr" where
  "backend_normalize_name U s =
     (case s of
        PyNone \<Rightarrow> []
      | PyStr t \<Rightarrow>
          if t = [] then []
          else
            let s2 = u_lower U (str_strip U t);
                s2 = u_nfkd U s2;
                s2 = filter (\<lambda>ch. u_combining U ch = 0) s2;
                s2 = map (\<lambda>ch. if u_isalnum U ch \<or> u_isspace U ch \<or> ch = 45 \<or> ch = 95
                               then ch else 32) s2;
                s2 = join_space (str_split U s2)
            in s2)"

section \<open>Searching the reservation table\<close>

text \<open>
  \<open>difflib.get_close_matches(word, possibilities, n, cutoff)\<close> belongs to the Python
  standard library, not to this repository: it is a parameter. The cutoff is the decimal
  literal of the call, as a rational.
\<close>

type_synonym close_matcher = "pystr \<Rightarrow> pystr list \<Rightarrow> nat \<Rightarrow> rat \<Rightarrow> pystr list"

definition nombre :: pystr where
  "nombre = str_of ''nombre''"

text \<open>
  The two nested loops of the fuzzy tier: for each match, the records are scanned from the
  start of the table and the scan stops (\<open>break\<close>) at the first record whose normalised
  name is the match.
\<close>

fun append_first_named :: "unicode_db \<Rightarrow> pystr \<Rightarrow> pydict list \<Rightarrow> pydict list \<Rightarrow> pydict list" where
  "append_first_named U m [] results = results"
| "append_first_named U m (r # rs) results =
     (if backend_normalize_name U (dict_get r nombre) = m then results @ [r]
      else append_first_named U m rs results)"

fun resolve_matches :: "unicode_db \<Rightarrow> pydict list \<Rightarrow> pystr list \<Rightarrow> pydict list \<Rightarrow> pydict list" where
  "resolve_matches U reservas_list [] results = results"
| "resolve_matches U reservas_list (m # ms) results =
     resolve_matches U reservas_list ms (append_first_named U m reservas_list results)"

text \<open>
  \<open>api_reservas\<close>: the argument \<open>q\<close> is the query parameter, \<open>None\<close> when the request has
  none; the result is the list handed to \<open>jsonify\<close>.
\<close>

definition api_reservas :: "unicode_db \<Rightarrow> close_matcher \<Rightarrow> pydict list \<Rightarrow> pystr option \<Rightarrow> pydict list" where
  "api_reservas U get_close_matches reservas_list q_arg =
     (let q = (case q_arg of None \<Rightarrow> [] | Some s \<Rightarrow> s);
          q = str_strip U q
      in if q = [] then []
         else
           let nq = backend_normalize_name U (PyStr q);
               exact = filter (\<lambda>r. backend_normalize_name U (dict_get r nombre) = nq) reservas_list
           in if exact \<noteq> [] then take 5 exact
              else
                let contains = filter (\<lambda>r. str_contains (backend_normalize_name U (dict_get r nombre)) nq)
                                 reservas_list
                in if contains \<noteq> [] then take 5 contains
                   else
                     let candidates = map (\<lambda>r. backend_normalize_name U (dict_get r nombre)) reservas_list;
                         matches = get_close_matches nq candidates 5 (6 / 10);
                         results = resolve_matches U reservas_list matches []
                     in take 5 results)"

section \<open>The dialogue graph\<close>

text \<open>
  A node and an option are JSON objects. A field that is only ever read with \<open>.get(key)\<close>
  is a \<open>pyval\<close>, \<open>PyNone\<close> when the key is missing or its value is \<open>null\<close>: the code cannot
  tell the two apart. A field that is read with a default, \<open>.get(key, default)\<close>, is an
  optional \<open>pyval\<close>, \<open>None\<close> for a missing key and \<open>Some PyNone\<close> for an explicit \<open>null\<close>,
  since the default replaces only a missing key. \<open>node["id"]\<close> is read with a subscript,
  which raises \<open>KeyError\<close> on a missing key, so \<open>n_id\<close> is \<open>None\<close> for a node without that
  key.
\<close>

record bot_option =
  o_id :: pyval
  o_label :: "pyval option"
  o_next_node_id :: pyval

record bot_node =
  n_id :: "pystr option"
  n_type_field :: "pyval option"
  n_message :: "pyval option"
  n_options :: "bot_option list"
  n_next_node_id :: pyval

text \<open>\<open>node.get("type")\<close>: the type of a node, \<open>None\<close> when it has none.\<close>

definition n_type :: "bot_node \<Rightarrow> pyval" where
  "n_type node = (case n_type_field node of None \<Rightarrow> PyNone | Some t \<Rightarrow> t)"

record bot_definition =
  d_nodes :: "bot_node list option"
  d_start_node_id :: "pystr option"

text \<open>
  The exceptions of the backend. \<open>KeyError\<close> comes from a subscript; the others are the
  \<open>ValueError\<close>s of \<open>resolve_next_node\<close>, one constructor for each message.
\<close>

datatype error =
    KeyError pystr
  | NodoNoEncontrado pystr
  | FaltaOptionId
  | OptionNoExiste pyval pystr
  | NextNodeNoExiste pystr
  | InputSinNextNode pystr

text \<open>
  \<open>nodes_index = {node["id"]: node for node in bot_definition["nodes"]}\<close>: the nodes are
  stored one after the other, each under its id.
\<close>

fun index_nodes :: "bot_node list \<Rightarrow> (pystr \<rightharpoonup> bot_node) \<Rightarrow> error + (pystr \<rightharpoonup> bot_node)" where
  "index_nodes [] idx = Inr idx"
| "index_nodes (node # nodes) idx =
     (case n_id node of
        None \<Rightarrow> Inl (KeyError (str_of ''id''))
      | Some k \<Rightarrow> index_nodes nodes (idx(k \<mapsto> node)))"

record bot =
  nodes_index :: "pystr \<rightharpoonup> bot_node"
  start_node_id :: pystr

text \<open>The module-level statements that follow \<open>load_bot_definition\<close>.\<close>

definition load_bot :: "bot_definition \<Rightarrow> error + bot" where
  "load_bot bot_definition =
     (case d_nodes bot_definition of
        None \<Rightarrow> Inl (KeyError (str_of ''nodes''))
      | Some nodes \<Rightarrow>
          (case index_nodes nodes Map.empty of
             Inl e \<Rightarrow> Inl e
           | Inr idx \<Rightarrow>
               Inr \<lparr> nodes_index = idx,
                     start_node_id = (case d_start_node_id bot_definition of
                                        None \<Rightarrow> str_of ''inicio_menu''
                                      | Some s \<Rightarrow> s) \<rparr>))"

record payload =
  p_node_id :: "pystr option"
  p_type :: pyval
  p_message :: pyval
  p_options :: "(pyval \<times> pyval) list"
  p_expects_input :: bool
  p_is_end :: bool

definition node_to_payload :: "bot_node \<Rightarrow> payload" where
  "node_to_payload node =
     (let node_type = (case n_type_field node of None \<Rightarrow> PyStr (str_of ''response'') | Some t \<Rightarrow> t);
          formatted_options =
            map (\<lambda>opt. (o_id opt,
                        case o_label opt of
                          None \<Rightarrow> PyStr [79, 112, 99, 105, 243, 110]
                        | Some l \<Rightarrow> l))
              (n_options node)
      in \<lparr> p_node_id = n_id node,
           p_type = node_type,
           p_message = (case n_message node of None \<Rightarrow> PyStr [] | Some m \<Rightarrow> m),
           p_options = formatted_options,
           p_expects_input = (node_type = PyStr (str_of ''input'')),
           p_is_end = (node_type = PyStr (str_of ''end'')) \<rparr>)"

text \<open>
  \<open>api_start\<close>: the payload of the start node, or the status 500 with the id that was
  not found.
\<close>

definition api_start :: "bot \<Rightarrow> (nat \<times> pystr) + payload" where
  "api_start b =
     (case nodes_index b (start_node_id b) of
        None \<Rightarrow> Inl (500, start_node_id b)
      | Some node \<Rightarrow> Inr (node_to_payload node))"

text \<open>
  The loop over the options of a menu node: \<open>next_node_id\<close> starts as \<open>None\<close> and the loop
  stops at the first option with the wanted id.
\<close>

fun scan_options :: "pyval \<Rightarrow> bot_option list \<Rightarrow> pyval" where
  "scan_options option_id [] = PyNone"
| "scan_options option_id (opt # opts) =
     (if o_id opt = option_id then o_next_node_id opt else scan_options option_id opts)"

text \<open>\<open>not v\<close> for an optional string.\<close>

definition py_not :: "pyval \<Rightarrow> bool" where
  "py_not v \<longleftrightarrow> v = PyNone \<or> v = PyStr []"

definition resolve_next_node ::
    "(pystr \<rightharpoonup> bot_node) \<Rightarrow> pystr \<Rightarrow> pyval \<Rightarrow> pyval \<Rightarrow> error + bot_node" where
  "resolve_next_node idx current_node_id option_id user_input =
     (case idx current_node_id of
        None \<Rightarrow> Inl (NodoNoEncontrado current_node_id)
      | Some current_node \<Rightarrow>
          let node_type = n_type current_node in
          if node_type = PyStr (str_of ''menu'') \<or> node_type = PyStr (str_of ''response'') then
            if py_not option_id then Inl FaltaOptionId
            else
              (case scan_options option_id (n_options current_node) of
                 PyNone \<Rightarrow> Inl (OptionNoExiste option_id current_node_id)
               | PyStr next_node_id \<Rightarrow>
                   if next_node_id = [] then Inl (OptionNoExiste option_id current_node_id)
                   else
                     (case idx next_node_id of
                        None \<Rightarrow> Inl (NextNodeNoExiste next_node_id)
                      | Some node \<Rightarrow> Inr node))
          else if node_type = PyStr (str_of ''input'') then
            (case n_next_node_id current_node of
               PyNone \<Rightarrow> Inl (InputSinNextNode current_node_id)
             | PyStr next_node_id \<Rightarrow>
                 if next_node_id = [] then Inl (InputSinNextNode current_node_id)
                 else
                   (case idx next_node_id of
                      None \<Rightarrow> Inl (NextNodeNoExiste next_node_id)
                    | Some node \<Rightarrow> Inr node))
          else if node_type = PyStr (str_of ''end'') then Inr current_node
          else
            (case n_next_node_id current_node of
               PyNone \<Rightarrow> Inr current_node
             | PyStr next_node_id \<Rightarrow>
                 (case idx next_node_id of
                    None \<Rightarrow> Inr current_node
                  | Some node \<Rightarrow> Inr node)))"

text \<open>
  The error kinds of the specification, for the exceptions a menu or response node can
  raise: a missing \<open>option_id\<close> is an InputError; an option that is not on the node, has no
  target, or whose target is not in the graph is a NotFoundError.
\<close>

datatype error_kind = ConfigurationError | InputError | NotFoundError

fun menu_error_kind :: "error \<Rightarrow> error_kind" where
  "menu_error_kind FaltaOptionId = InputError"
| "menu_error_kind (OptionNoExiste _ _) = NotFoundError"
| "menu_error_kind (NextNodeNoExiste _) = NotFoundError"
| "menu_error_kind _ = ConfigurationError"

section \<open>The unification script\<close>

text \<open>
  \<open>normalize_name\<close> of \<open>fix_fill_reservas.py\<close>. The first substitution replaces the
  characters \<open>( ) [ ] { } < > "\<close> by a space, the second every character that is not a
  word character (\<open>\w\<close>: alphanumeric or underscore), whitespace or a hyphen; the third
  replaces each run of whitespace by one space.
\<close>

fun collapse_ws :: "unicode_db \<Rightarrow> bool \<Rightarrow> pystr \<Rightarrow> pystr" where
  "collapse_ws U in_run [] = []"
| "collapse_ws U in_run (c # cs) =
     (if u_isspace U c
      then (if in_run then collapse_ws U True cs else 32 # collapse_ws U True cs)
      else c # collapse_ws U False cs)"

definition normalize_name :: "unicode_db \<Rightarrow> pyval \<Rightarrow> pystr" where
  "normalize_name U v =
     (case v of
        PyNone \<Rightarrow> []
      | PyStr s0 \<Rightarrow>
          let s = str_strip U s0 in
          if u_lower U s \<in> {str_of ''nan'', str_of ''none'', str_of ''null'', []} then []
          else
            let s = u_nfkd U s;
                s = filter (\<lambda>ch. u_combining U ch = 0) s;
                s = map (\<lambda>ch. if ch \<in> {40, 41, 91, 93, 123, 125, 60, 62, 34} then 32 else ch) s;
                s = map (\<lambda>ch. if \<not> (u_isalnum U ch \<or> ch = 95 \<or> u_isspace U ch \<or> ch = 45)
                               then 32 else ch) s;
                s = collapse_ws U False s
            in str_strip U (u_lower U s))"

text \<open>
  \<open>mapping\<close> sends a name to the fields to fill in; it is a parameter.
  \<open>norm_to_key\<close> is filled key by key, a later key overwriting an earlier one with the
  same normalised form.
\<close>

type_synonym enrichment = "(pystr \<times> pydict) list"

fun build_norm_to_key :: "unicode_db \<Rightarrow> pystr list \<Rightarrow> (pystr \<times> pystr) list \<Rightarrow> (pystr \<times> pystr) list" where
  "build_norm_to_key U [] norm_to_key = norm_to_key"
| "build_norm_to_key U (k # ks) norm_to_key =
     (let nk = normalize_name U (PyStr k)
      in build_norm_to_key U ks (if nk \<noteq> [] then AList.update nk k norm_to_key else norm_to_key))"

text \<open>\<open>d[k]\<close>: the value, or \<open>KeyError\<close>.\<close>

definition subscript :: "(pystr \<times> 'v) list \<Rightarrow> pystr \<Rightarrow> error + 'v" where
  "subscript d k = (case map_of d k of None \<Rightarrow> Inl (KeyError k) | Some v \<Rightarrow> Inr v)"

text \<open>\<open>for kk, vv in vals.items(): rec[kk] = vv\<close>.\<close>

definition fill_fields :: "pydict \<Rightarrow> pydict \<Rightarrow> pydict" where
  "fill_fields rec vals = fold (\<lambda>(kk, vv) r. dict_set r kk vv) vals rec"

text \<open>
  The state of the loop over the records: the records already visited (as they stand after
  the visit), the counter and the two report lists.
\<close>

record unify_state =
  records :: "pydict list"
  updated :: nat
  not_found :: "pyval list"
  fuzzy_matches :: "(pystr \<times> pystr) list"

definition enrich :: "unify_state \<Rightarrow> pydict \<Rightarrow> pydict \<Rightarrow> unify_state" where
  "enrich st rec vals = st\<lparr> records := records st @ [fill_fields rec vals], updated := updated st + 1 \<rparr>"

definition report_not_found :: "unify_state \<Rightarrow> pydict \<Rightarrow> pyval \<Rightarrow> unify_state" where
  "report_not_found st rec name = st\<lparr> records := records st @ [rec], not_found := not_found st @ [name] \<rparr>"

definition visit_record ::
    "unicode_db \<Rightarrow> close_matcher \<Rightarrow> enrichment \<Rightarrow> (pystr \<times> pystr) list \<Rightarrow> unify_state \<Rightarrow> pydict
      \<Rightarrow> error + unify_state" where
  "visit_record U get_close_matches mapping norm_to_key st rec =
     (case dict_get rec nombre of
        PyNone \<Rightarrow> Inr (report_not_found st rec PyNone)
      | PyStr name \<Rightarrow>
          (case map_of mapping name of
             Some vals \<Rightarrow> Inr (enrich st rec vals)
           | None \<Rightarrow>
               let nname = normalize_name U (PyStr name) in
               if nname \<noteq> [] \<and> map_of norm_to_key nname \<noteq> None then
                 (case subscript norm_to_key nname of
                    Inl e \<Rightarrow> Inl e
                  | Inr mk \<Rightarrow>
                      (case subscript mapping mk of
                         Inl e \<Rightarrow> Inl e
                       | Inr vals \<Rightarrow> Inr (enrich st rec vals)))
               else if nname \<noteq> [] then
                 (let candidates = map fst norm_to_key;
                      close = get_close_matches nname candidates 1 (75 / 100)
                  in case close of
                       [] \<Rightarrow> Inr (report_not_found st rec (PyStr name))
                     | matched_norm # _ \<Rightarrow>
                         (case subscript norm_to_key matched_norm of
                            Inl e \<Rightarrow> Inl e
                          | Inr mk \<Rightarrow>
                              (case subscript mapping mk of
                                 Inl e \<Rightarrow> Inl e
                               | Inr vals \<Rightarrow>
                                   Inr ((enrich st rec vals)
                                          \<lparr> fuzzy_matches := fuzzy_matches st @ [(name, mk)] \<rparr>))))
               else Inr (report_not_found st rec (PyStr name))))"

fun visit_records ::
    "unicode_db \<Rightarrow> close_matcher \<Rightarrow> enrichment \<Rightarrow> (pystr \<times> pystr) list \<Rightarrow> unify_state \<Rightarrow> pydict list
      \<Rightarrow> error + unify_state" where
  "visit_records U gcm mapping norm_to_key st [] = Inr st"
| "visit_records U gcm mapping norm_to_key st (rec # recs) =
     (case visit_record U gcm mapping norm_to_key st rec of
        Inl e \<Rightarrow> Inl e
      | Inr st' \<Rightarrow> visit_records U gcm mapping norm_to_key st' recs)"

text \<open>
  The script from the construction of \<open>norm_to_key\<close> to the end of the loop; the records
  of the final state are what \<open>json.dumps\<close> writes.
\<close>

definition fix_fill :: "unicode_db \<Rightarrow> close_matcher \<Rightarrow> enrichment \<Rightarrow> pydict list \<Rightarrow> error + unify_state" where
  "fix_fill U gcm mapping recs =
     visit_records U gcm mapping (build_norm_to_key U (map fst mapping) [])
       \<lparr> records = [], updated = 0, not_found = [], fuzzy_matches = [] \<rparr> recs"

text \<open>
  The three tiers in the words of the specification: an exact match of the name against
  the keys of the mapping; a match of the normalised name against a normalised key; a fuzzy
  match of the normalised name against the normalised keys (the keys of \<open>norm_to_key\<close>, in
  its order) at cutoff 0.75. A record whose \<open>nombre\<close> is not a string matches no tier.
\<close>

definition tier_exact :: "enrichment \<Rightarrow> pydict \<Rightarrow> bool" where
  "tier_exact mapping rec \<longleftrightarrow>
     (case dict_get rec nombre of PyNone \<Rightarrow> False | PyStr name \<Rightarrow> name \<in> set (map fst mapping))"

definition tier_normalized :: "unicode_db \<Rightarrow> enrichment \<Rightarrow> pydict \<Rightarrow> bool" where
  "tier_normalized U mapping rec \<longleftrightarrow>
     (case dict_get rec nombre of
        PyNone \<Rightarrow> False
      | PyStr name \<Rightarrow>
          normalize_name U (PyStr name) \<noteq> []
          \<and> normalize_name U (PyStr name) \<in> set (map (\<lambda>k. normalize_name U (PyStr k)) (map fst mapping)))"

definition tier_fuzzy :: "unicode_db \<Rightarrow> close_matcher \<Rightarrow> enrichment \<Rightarrow> pydict \<Rightarrow> bool" where
  "tier_fuzzy U gcm mapping rec \<longleftrightarrow>
     (case dict_get rec nombre of
        PyNone \<Rightarrow> False
      | PyStr name \<Rightarrow>
          normalize_name U (PyStr name) \<noteq> []
          \<and> gcm (normalize_name U (PyStr name))
                (map fst (build_norm_to_key U (map fst mapping) [])) 1 (75 / 100) \<noteq> [])"

definition matches_some_tier :: "unicode_db \<Rightarrow> close_matcher \<Rightarrow> enrichment \<Rightarrow> pydict \<Rightarrow> bool" where
  "matches_some_tier U gcm mapping rec \<longleftrightarrow>
     tier_exact mapping rec \<or> tier_normalized U mapping rec \<or> tier_fuzzy U gcm mapping rec"

text \<open>
  The key of the entry a record is matched to, by the first tier that applies: the key that
  is its name; otherwise the key whose normalised form is its normalised name; otherwise
  the key whose normalised form is the best fuzzy match. Where several keys have the same
  normalised form, the last of them stands for all, as in \<open>norm_to_key\<close>.
\<close>

definition matched_key :: "unicode_db \<Rightarrow> close_matcher \<Rightarrow> enrichment \<Rightarrow> pydict \<Rightarrow> pystr option" where
  "matched_key U gcm mapping rec =
     (case dict_get rec nombre of
        PyNone \<Rightarrow> None
      | PyStr name \<Rightarrow>
          if name \<in> set (map fst mapping) then Some name
          else if normalize_name U (PyStr name) = [] then None
          else
            (case find (\<lambda>k. normalize_name U (PyStr k) = normalize_name U (PyStr name))
                    (rev (map fst mapping)) of
               Some mk \<Rightarrow> Some mk
             | None \<Rightarrow>
                 (case gcm (normalize_name U (PyStr name))
                         (map fst (build_norm_to_key U (map fst mapping) [])) 1 (75 / 100) of
                    [] \<Rightarrow> None
                  | matched_norm # _ \<Rightarrow>
                      find (\<lambda>k. normalize_name U (PyStr k) = matched_norm) (rev (map fst mapping)))))"

section \<open>Auxiliary notions and example data\<close>

text \<open>
  The notions the theorems below are stated with, and the small tables, graphs and
  mappings on which they are evaluated.
\<close>

definition ex_table :: "pydict list" where
  "ex_table =
     [[(nombre, PyStr (str_of ''Laguna de los Padres''))],
      [(nombre, PyStr (str_of ''laguna de los padres''))],
      [(nombre, PyStr (str_of ''Otamendi''))]]"

definition ex_dup :: "pydict list" where
  "ex_dup =
     [[(nombre, PyStr (str_of ''Otamendi''))],
      [(nombre, PyStr (str_of ''OTAMENDI''))]]"

definition ex_null :: "pydict list" where
  "ex_null =
     [[(nombre, PyStr (str_of ''Otamendi''))],
      [(nombre, PyNone)]]"

text \<open>A token is a non-empty string without whitespace, as \<open>split\<close> produces them.\<close>

definition token :: "unicode_db \<Rightarrow> pystr \<Rightarrow> bool" where
  "token U w \<longleftrightarrow> w \<noteq> [] \<and> (\<forall>c\<in>set w. \<not> u_isspace U c)"

text \<open>The code points on which \<open>ucd\<close> is the Unicode database, the trade mark sign apart.\<close>

definition in_fragment :: "codepoint \<Rightarrow> bool" where
  "in_fragment c \<longleftrightarrow>
     c < 128
     \<or> c \<in> {193, 201, 205, 209, 211, 218, 220, 225, 233, 237, 241, 243, 250, 252}
     \<or> c \<in> {769, 771, 776}"

text \<open>\<open>Samborombon\<close> with its acute accent (U+00F3).\<close>

definition ex_samborombon :: pystr where
  "ex_samborombon = [83, 97, 109, 98, 111, 114, 111, 109, 98, 243, 110]"

text \<open>
  The graph of two nodes: the menu \<open>A\<close>, whose two options both have the id \<open>1\<close> and lead
  to \<open>B\<close> and to \<open>A\<close>, and a third option that leads nowhere; and the end node \<open>B\<close>.
\<close>

definition ex_node_A :: bot_node where
  "ex_node_A =
     \<lparr> n_id = Some (str_of ''A''), n_type_field = Some (PyStr (str_of ''menu'')), n_message = Some (PyStr (str_of ''hola'')),
       n_options =
         [\<lparr> o_id = PyStr (str_of ''1''), o_label = Some (PyStr (str_of ''uno'')), o_next_node_id = PyStr (str_of ''B'') \<rparr>,
          \<lparr> o_id = PyStr (str_of ''1''), o_label = Some (PyStr (str_of ''otro'')), o_next_node_id = PyStr (str_of ''A'') \<rparr>,
          \<lparr> o_id = PyStr (str_of ''2''), o_label = Some (PyStr (str_of ''dos'')), o_next_node_id = PyStr (str_of ''C'') \<rparr>],
       n_next_node_id = PyNone \<rparr>"

definition ex_node_B :: bot_node where
  "ex_node_B =
     \<lparr> n_id = Some (str_of ''B''), n_type_field = Some (PyStr (str_of ''end'')), n_message = Some (PyStr (str_of ''chau'')),
       n_options = [], n_next_node_id = PyNone \<rparr>"

definition ex_idx :: "pystr \<rightharpoonup> bot_node" where
  "ex_idx = [str_of ''A'' \<mapsto> ex_node_A, str_of ''B'' \<mapsto> ex_node_B]"

text \<open>
  The node stored under an id once a definition is loaded: \<open>nodes_index.get(k)\<close> after the
  module-level statements have run.
\<close>

definition loaded_node :: "bot_definition \<Rightarrow> pystr \<Rightarrow> error + bot_node option" where
  "loaded_node bot_definition k =
     (case load_bot bot_definition of Inl e \<Rightarrow> Inl e | Inr b \<Rightarrow> Inr (nodes_index b k))"

text \<open>A node of a type the engine does not know, and a graph around it.\<close>

definition ex_node_X :: bot_node where
  "ex_node_X =
     \<lparr> n_id = Some (str_of ''X''), n_type_field = Some (PyStr (str_of ''info'')), n_message = None,
       n_options = [], n_next_node_id = PyStr (str_of ''B'') \<rparr>"

definition ex_node_Y :: bot_node where
  "ex_node_Y =
     \<lparr> n_id = Some (str_of ''Y''), n_type_field = None, n_message = None,
       n_options = [], n_next_node_id = PyStr (str_of ''Z'') \<rparr>"

definition ex_idx_XY :: "pystr \<rightharpoonup> bot_node" where
  "ex_idx_XY = [str_of ''X'' \<mapsto> ex_node_X, str_of ''Y'' \<mapsto> ex_node_Y, str_of ''B'' \<mapsto> ex_node_B]"

text \<open>Two nodes with the same id, and a definition that holds both.\<close>

definition ex_first :: bot_node where
  "ex_first =
     \<lparr> n_id = Some (str_of ''a''), n_type_field = Some (PyStr (str_of ''end'')), n_message = Some (PyStr (str_of ''first'')),
       n_options = [], n_next_node_id = PyNone \<rparr>"

definition ex_second :: bot_node where
  "ex_second =
     \<lparr> n_id = Some (str_of ''a''), n_type_field = Some (PyStr (str_of ''end'')), n_message = Some (PyStr (str_of ''second'')),
       n_options = [], n_next_node_id = PyNone \<rparr>"

definition ex_def_dup :: bot_definition where
  "ex_def_dup = \<lparr> d_nodes = Some [ex_first, ex_second], d_start_node_id = Some (str_of ''a'') \<rparr>"

text \<open>A definition without a start node id, whose only node is not the default start node.\<close>

definition ex_def_no_start :: bot_definition where
  "ex_def_no_start = \<lparr> d_nodes = Some [ex_node_B], d_start_node_id = None \<rparr>"

text \<open>
  An enrichment mapping with three entries, two of which have the same normalised key, and
  six records: two whose names are keys of the mapping, one whose name is a key once
  normalised, one that is close to a key, one that matches nothing and one without a name.
\<close>

definition ex_mapping :: enrichment where
  "ex_mapping =
     [(str_of ''Otamendi'',
       [(str_of ''Costo'', PyStr (str_of ''Gratuito'')), (str_of ''Fuente'', PyStr (str_of ''La Nacion''))]),
      (str_of ''Punta Lara'', [(str_of ''Horarios'', PyStr (str_of ''9 a 18''))]),
      (str_of ''OTAMENDI'', [(str_of ''Costo'', PyStr (str_of ''Pago''))])]"

definition ex_recs :: "pydict list" where
  "ex_recs =
     [[(nombre, PyStr (str_of ''Otamendi'')), (str_of ''Fuente'', PyNone)],
      [(nombre, PyStr (str_of ''Punta Lara'')), (str_of ''Fuente'', PyStr (str_of ''x''))],
      [(nombre, PyStr (str_of ''otamendi''))],
      [(nombre, PyStr (str_of ''Otamendy''))],
      [(nombre, PyStr (str_of ''Mar Chiquita'')), (str_of ''Fuente'', PyStr (str_of ''y''))],
      [(str_of ''Fuente'', PyStr (str_of ''z''))]]"

text \<open>
  A matcher that answers as \<open>difflib\<close> does on the names of the example: \<open>otamendy\<close> is
  close to \<open>otamendi\<close> (ratio 0.875), and \<open>mar chiquita\<close> is close to nothing.
\<close>

definition ex_matcher :: close_matcher where
  "ex_matcher w ps n c =
     take n (filter (\<lambda>p. w = str_of ''otamendy'' \<and> p = str_of ''otamendi'') ps)"

definition ex_unified :: unify_state where
  "ex_unified =
     \<lparr> records =
         [[(nombre, PyStr (str_of ''Otamendi'')), (str_of ''Fuente'', PyStr (str_of ''La Nacion'')),
           (str_of ''Costo'', PyStr (str_of ''Gratuito''))],
          [(nombre, PyStr (str_of ''Punta Lara'')), (str_of ''Fuente'', PyStr (str_of ''x'')),
           (str_of ''Horarios'', PyStr (str_of ''9 a 18''))],
          [(nombre, PyStr (str_of ''otamendi'')), (str_of ''Costo'', PyStr (str_of ''Pago''))],
          [(nombre, PyStr (str_of ''Otamendy'')), (str_of ''Costo'', PyStr (str_of ''Pago''))],
          [(nombre, PyStr (str_of ''Mar Chiquita'')), (str_of ''Fuente'', PyStr (str_of ''y''))],
          [(str_of ''Fuente'', PyStr (str_of ''z''))]],
       updated = 4,
       not_found = [PyStr (str_of ''Mar Chiquita''), PyNone],
       fuzzy_matches = [(str_of ''Otamendy'', str_of ''OTAMENDI'')] \<rparr>"

section \<open>Evaluation on the fragment\<close>

text \<open>
  The selectors of \<open>ucd\<close>, and the values of the string functions on the strings of the
  examples. A \<open>let\<close> is unfolded before the simplifier runs, so that it only ever sees
  concrete strings.
\<close>

lemma ucd_sel:
  "u_lower ucd = map lower_cp"
  "u_nfkd ucd = (\<lambda>s. concat (map decomp_cp s))"
  "u_combining ucd = combining_cp"
  "u_isalnum ucd = isalnum_cp"
  "u_isspace ucd = isspace_cp"
  by (simp_all add: ucd_def)

lemmas cp_defs = lower_cp_def decomp_cp_def combining_cp_def isalnum_cp_def isspace_cp_def

lemmas eval_defs = str_of_def str_strip_def str_split_def ucd_sel cp_defs

lemma strip_blank: "str_strip ucd (str_of ''   '') = []"
  by (simp add: eval_defs)

lemma strip_laguna: "str_strip ucd (str_of ''Laguna de los Padres'') = str_of ''Laguna de los Padres''"
  by (simp add: eval_defs)

lemma strip_padres: "str_strip ucd (str_of ''padres'') = str_of ''padres''"
  by (simp add: eval_defs)

lemma strip_otamendy: "str_strip ucd (str_of ''Otamendy'') = str_of ''Otamendy''"
  by (simp add: eval_defs)

lemma norm_Laguna: "backend_normalize_name ucd (PyStr (str_of ''Laguna de los Padres'')) = str_of ''laguna de los padres''"
  unfolding backend_normalize_name_def Let_def by (simp add: eval_defs)

lemma norm_laguna: "backend_normalize_name ucd (PyStr (str_of ''laguna de los padres'')) = str_of ''laguna de los padres''"
  unfolding backend_normalize_name_def Let_def by (simp add: eval_defs)

lemma norm_Otamendi: "backend_normalize_name ucd (PyStr (str_of ''Otamendi'')) = str_of ''otamendi''"
  unfolding backend_normalize_name_def Let_def by (simp add: eval_defs)

lemma norm_Otamendy: "backend_normalize_name ucd (PyStr (str_of ''Otamendy'')) = str_of ''otamendy''"
  unfolding backend_normalize_name_def Let_def by (simp add: eval_defs)

lemma norm_padres: "backend_normalize_name ucd (PyStr (str_of ''padres'')) = str_of ''padres''"
  unfolding backend_normalize_name_def Let_def by (simp add: eval_defs)

lemmas ex_norms = strip_blank strip_laguna strip_padres strip_otamendy
  norm_Laguna norm_laguna norm_Otamendi norm_Otamendy norm_padres


lemma norm_OTAMENDI: "backend_normalize_name ucd (PyStr (str_of ''OTAMENDI'')) = str_of ''otamendi''"
  unfolding backend_normalize_name_def Let_def by (simp add: eval_defs)

lemma strip_bangs: "str_strip ucd (str_of ''!!!'') = str_of ''!!!''"
  by (simp add: eval_defs)

lemma norm_bangs: "backend_normalize_name ucd (PyStr (str_of ''!!!'')) = []"
  unfolding backend_normalize_name_def Let_def by (simp add: eval_defs)

lemma norm_None: "backend_normalize_name U PyNone = []"
  by (simp add: backend_normalize_name_def)

section \<open>The search\<close>

text \<open>
  \<open>str_contains\<close> decides the contiguous-sublist relation; the two loops of the fuzzy tier
  append, for each match, the first record with that normalised name, if there is one.
\<close>

lemma str_contains_sublist: "str_contains s sub \<longleftrightarrow> sublist sub s"
  by (induction s) (auto simp: sublist_Cons_right)

lemma append_first_named_find:
  "append_first_named U m rs results =
     results @ (case find (\<lambda>r. backend_normalize_name U (dict_get r nombre) = m) rs of
                  None \<Rightarrow> [] | Some r \<Rightarrow> [r])"
  by (induction rs) auto

lemma resolve_matches_concat:
  "resolve_matches U rs ms results =
     results @ concat (map (\<lambda>m. case find (\<lambda>r. backend_normalize_name U (dict_get r nombre) = m) rs of
                                  None \<Rightarrow> [] | Some r \<Rightarrow> [r]) ms)"
  by (induction ms arbitrary: results) (auto simp: append_first_named_find)

lemma resolve_matches_first:
  assumes "r \<in> set (resolve_matches U rs ms [])"
  shows "\<exists>i<length rs. rs ! i = r
           \<and> (\<forall>j<i. backend_normalize_name U (dict_get (rs ! j) nombre)
                        \<noteq> backend_normalize_name U (dict_get r nombre))"
proof -
  from assms obtain m where
      f: "find (\<lambda>r. backend_normalize_name U (dict_get r nombre) = m) rs = Some r"
    by (auto simp: resolve_matches_concat split: option.splits)
  from f obtain i where "i < length rs" "rs ! i = r"
      "backend_normalize_name U (dict_get r nombre) = m"
      "\<forall>j<i. backend_normalize_name U (dict_get (rs ! j) nombre) \<noteq> m"
    by (auto simp: find_Some_iff)
  then show ?thesis by blast
qed

lemma fuzzy_reached:
  assumes "str_strip U (case q of None \<Rightarrow> [] | Some s \<Rightarrow> s) \<noteq> []"
    and "\<forall>r\<in>set reservas_list.
           \<not> sublist (backend_normalize_name U (PyStr (str_strip U (case q of None \<Rightarrow> [] | Some s \<Rightarrow> s))))
                (backend_normalize_name U (dict_get r nombre))"
  shows "api_reservas U gcm reservas_list q =
           take 5 (resolve_matches U reservas_list
             (gcm (backend_normalize_name U (PyStr (str_strip U (case q of None \<Rightarrow> [] | Some s \<Rightarrow> s))))
                  (map (\<lambda>r. backend_normalize_name U (dict_get r nombre)) reservas_list) 5 (6 / 10)) [])"
proof -
  from assms(2) have "filter (\<lambda>r. backend_normalize_name U (dict_get r nombre)
        = backend_normalize_name U (PyStr (str_strip U (case q of None \<Rightarrow> [] | Some s \<Rightarrow> s)))) reservas_list = []"
    by (auto simp: filter_empty_conv)
  moreover from assms(2) have "filter (\<lambda>r. str_contains (backend_normalize_name U (dict_get r nombre))
        (backend_normalize_name U (PyStr (str_strip U (case q of None \<Rightarrow> [] | Some s \<Rightarrow> s))))) reservas_list = []"
    by (auto simp: filter_empty_conv str_contains_sublist)
  ultimately show ?thesis
    using assms(1) by (simp add: api_reservas_def Let_def)
qed

text \<open>
  C2. The search goes through the tiers in order and stops at the first that applies. A
  query that is empty after trimming gives the empty list. Otherwise, if some record has the
  normalised query as its normalised name, the result is the first five such records, in
  table order; otherwise, if some normalised name contains the normalised query, the first
  five such records; otherwise the result is what the fuzzy tier finds. In the first three
  cases the matcher is not consulted: the result is the same for every matcher. In the last,
  a matcher that finds nothing gives the empty list. No case is an error: the function
  returns a list on every input.
\<close>

theorem api_reservas_tiers:
  "api_reservas U gcm reservas_list q =
     (let qs = str_strip U (case q of None \<Rightarrow> [] | Some s \<Rightarrow> s);
          nq = backend_normalize_name U (PyStr qs);
          norm = (\<lambda>r. backend_normalize_name U (dict_get r nombre))
      in if qs = [] then []
         else if \<exists>r\<in>set reservas_list. norm r = nq
           then take 5 (filter (\<lambda>r. norm r = nq) reservas_list)
         else if \<exists>r\<in>set reservas_list. sublist nq (norm r)
           then take 5 (filter (\<lambda>r. sublist nq (norm r)) reservas_list)
         else take 5 (resolve_matches U reservas_list (gcm nq (map norm reservas_list) 5 (6 / 10)) []))
   \<and> (let qs = str_strip U (case q of None \<Rightarrow> [] | Some s \<Rightarrow> s);
          nq = backend_normalize_name U (PyStr qs);
          norm = (\<lambda>r. backend_normalize_name U (dict_get r nombre))
      in (qs = [] \<or> (\<exists>r\<in>set reservas_list. sublist nq (norm r)) \<longrightarrow>
            (\<forall>gcm'. api_reservas U gcm' reservas_list q = api_reservas U gcm reservas_list q))
         \<and> (gcm nq (map norm reservas_list) 5 (6 / 10) = []
              \<and> \<not> (\<exists>r\<in>set reservas_list. sublist nq (norm r)) \<longrightarrow>
            api_reservas U gcm reservas_list q = []))"
  by (auto simp: api_reservas_def Let_def filter_empty_conv str_contains_sublist)

theorem api_reservas_tiers_witness:
  "api_reservas ucd (\<lambda>w ps n c. []) ex_table (Some (str_of ''   '')) = []
   \<and> api_reservas ucd (\<lambda>w ps n c. []) ex_table (Some (str_of ''Laguna de los Padres''))
       = [[(nombre, PyStr (str_of ''Laguna de los Padres''))],
          [(nombre, PyStr (str_of ''laguna de los padres''))]]
   \<and> api_reservas ucd (\<lambda>w ps n c. []) ex_table (Some (str_of ''padres''))
       = [[(nombre, PyStr (str_of ''Laguna de los Padres''))],
          [(nombre, PyStr (str_of ''laguna de los padres''))]]
   \<and> api_reservas ucd (\<lambda>w ps n c. [str_of ''otamendi'']) ex_table (Some (str_of ''Otamendy''))
       = [[(nombre, PyStr (str_of ''Otamendi''))]]
   \<and> api_reservas ucd (\<lambda>w ps n c. []) ex_table (Some (str_of ''Otamendy'')) = []"
proof -
  note ev = dict_get_def ex_norms sublist_Cons_right ex_table_def
  have "api_reservas ucd (\<lambda>w ps n c. []) ex_table (Some (str_of ''   '')) = []"
    using api_reservas_tiers [of ucd "\<lambda>w ps n c. []" ex_table "Some (str_of ''   '')", THEN conjunct1]
    unfolding Let_def by (simp add: ev)
  moreover have "api_reservas ucd (\<lambda>w ps n c. []) ex_table (Some (str_of ''Laguna de los Padres''))
       = [[(nombre, PyStr (str_of ''Laguna de los Padres''))],
          [(nombre, PyStr (str_of ''laguna de los padres''))]]"
    using api_reservas_tiers [of ucd "\<lambda>w ps n c. []" ex_table "Some (str_of ''Laguna de los Padres'')", THEN conjunct1]
    unfolding Let_def by (simp add: ev) (simp add: str_of_def)
  moreover have "api_reservas ucd (\<lambda>w ps n c. []) ex_table (Some (str_of ''padres''))
       = [[(nombre, PyStr (str_of ''Laguna de los Padres''))],
          [(nombre, PyStr (str_of ''laguna de los padres''))]]"
    using api_reservas_tiers [of ucd "\<lambda>w ps n c. []" ex_table "Some (str_of ''padres'')", THEN conjunct1]
    unfolding Let_def by (simp add: ev) (simp add: str_of_def sublist_Cons_right)
  moreover have "api_reservas ucd (\<lambda>w ps n c. [str_of ''otamendi'']) ex_table (Some (str_of ''Otamendy''))
       = [[(nombre, PyStr (str_of ''Otamendi''))]]"
    using api_reservas_tiers [of ucd "\<lambda>w ps n c. [str_of ''otamendi'']" ex_table "Some (str_of ''Otamendy'')", THEN conjunct1]
    unfolding Let_def by (simp add: ev) (simp add: str_of_def sublist_Cons_right)
  moreover have "api_reservas ucd (\<lambda>w ps n c. []) ex_table (Some (str_of ''Otamendy'')) = []"
    using api_reservas_tiers [of ucd "\<lambda>w ps n c. []" ex_table "Some (str_of ''Otamendy'')", THEN conjunct1]
    unfolding Let_def by (simp add: ev) (simp add: str_of_def sublist_Cons_right)
  ultimately show ?thesis by blast
qed

text \<open>
  C4. Whatever the table and the query, and whichever tier answers, the search returns at
  most five records.
\<close>

theorem api_reservas_at_most_five:
  "length (api_reservas U gcm reservas_list q) \<le> 5"
  by (simp add: api_reservas_def Let_def)

text \<open>
  C3. When the search reaches the fuzzy tier (the trimmed query is not empty and no
  normalised name contains the normalised query), the matcher is called on the normalised
  query and the list of the normalised names of the table, in table order, with at most 5
  results and cutoff 0.6. Each match is replaced by the first record of the table whose
  normalised name is the match (or by nothing when there is none), and the first five
  records so obtained are returned. Hence every record of the result is the first record of
  the table with its normalised name: a record that comes after another one with the same
  normalised name is never returned in its own right.
\<close>

theorem fuzzy_tier_first_record:
  assumes "str_strip U (case q of None \<Rightarrow> [] | Some s \<Rightarrow> s) \<noteq> []"
    and "\<forall>r\<in>set reservas_list.
           \<not> sublist (backend_normalize_name U (PyStr (str_strip U (case q of None \<Rightarrow> [] | Some s \<Rightarrow> s))))
                (backend_normalize_name U (dict_get r nombre))"
  shows "api_reservas U gcm reservas_list q =
           take 5 (concat (map
             (\<lambda>m. case find (\<lambda>r. backend_normalize_name U (dict_get r nombre) = m) reservas_list of
                    None \<Rightarrow> [] | Some r \<Rightarrow> [r])
             (gcm (backend_normalize_name U (PyStr (str_strip U (case q of None \<Rightarrow> [] | Some s \<Rightarrow> s))))
                  (map (\<lambda>r. backend_normalize_name U (dict_get r nombre)) reservas_list) 5 (6 / 10))))
         \<and> (\<forall>r\<in>set (api_reservas U gcm reservas_list q).
               \<exists>i<length reservas_list. reservas_list ! i = r
                 \<and> (\<forall>j<i. backend_normalize_name U (dict_get (reservas_list ! j) nombre)
                              \<noteq> backend_normalize_name U (dict_get r nombre)))"
proof
  show "api_reservas U gcm reservas_list q =
           take 5 (concat (map
             (\<lambda>m. case find (\<lambda>r. backend_normalize_name U (dict_get r nombre) = m) reservas_list of
                    None \<Rightarrow> [] | Some r \<Rightarrow> [r])
             (gcm (backend_normalize_name U (PyStr (str_strip U (case q of None \<Rightarrow> [] | Some s \<Rightarrow> s))))
                  (map (\<lambda>r. backend_normalize_name U (dict_get r nombre)) reservas_list) 5 (6 / 10))))"
    using fuzzy_reached [OF assms] by (simp add: resolve_matches_concat)
next
  show "\<forall>r\<in>set (api_reservas U gcm reservas_list q).
               \<exists>i<length reservas_list. reservas_list ! i = r
                 \<and> (\<forall>j<i. backend_normalize_name U (dict_get (reservas_list ! j) nombre)
                              \<noteq> backend_normalize_name U (dict_get r nombre))"
  proof
    fix r
    assume "r \<in> set (api_reservas U gcm reservas_list q)"
    then have "r \<in> set (resolve_matches U reservas_list
             (gcm (backend_normalize_name U (PyStr (str_strip U (case q of None \<Rightarrow> [] | Some s \<Rightarrow> s))))
                  (map (\<lambda>r. backend_normalize_name U (dict_get r nombre)) reservas_list) 5 (6 / 10)) [])"
      unfolding fuzzy_reached [OF assms] by (rule in_set_takeD)
    then show "\<exists>i<length reservas_list. reservas_list ! i = r
                 \<and> (\<forall>j<i. backend_normalize_name U (dict_get (reservas_list ! j) nombre)
                              \<noteq> backend_normalize_name U (dict_get r nombre))"
      by (rule resolve_matches_first)
  qed
qed

theorem fuzzy_tier_first_record_witness:
  "str_strip ucd (str_of ''Otamendy'') \<noteq> []
   \<and> list_all (\<lambda>r. \<not> sublist (backend_normalize_name ucd (PyStr (str_strip ucd (str_of ''Otamendy''))))
                         (backend_normalize_name ucd (dict_get r nombre))) ex_dup
   \<and> api_reservas ucd (\<lambda>w ps n c. [str_of ''otamendi'', str_of ''otamendi'']) ex_dup
        (Some (str_of ''Otamendy''))
       = [[(nombre, PyStr (str_of ''Otamendi''))], [(nombre, PyStr (str_of ''Otamendi''))]]"
proof -
  note ev = dict_get_def ex_norms norm_OTAMENDI sublist_Cons_right ex_dup_def
  have h1: "str_strip ucd (case Some (str_of ''Otamendy'') of None \<Rightarrow> [] | Some s \<Rightarrow> s) \<noteq> []"
    by (simp add: ev) (simp add: str_of_def)
  have h2: "\<forall>r\<in>set ex_dup.
         \<not> sublist (backend_normalize_name ucd (PyStr (str_strip ucd
                      (case Some (str_of ''Otamendy'') of None \<Rightarrow> [] | Some s \<Rightarrow> s))))
              (backend_normalize_name ucd (dict_get r nombre))"
    by (simp add: ev) (simp add: str_of_def sublist_Cons_right)
  have "api_reservas ucd (\<lambda>w ps n c. [str_of ''otamendi'', str_of ''otamendi'']) ex_dup
        (Some (str_of ''Otamendy''))
       = [[(nombre, PyStr (str_of ''Otamendi''))], [(nombre, PyStr (str_of ''Otamendi''))]]"
    using fuzzy_tier_first_record [OF h1 h2, of "\<lambda>w ps n c. [str_of ''otamendi'', str_of ''otamendi'']", THEN conjunct1]
    by (simp add: ev)
  with h1 h2 show ?thesis by (simp add: list_all_iff)
qed

text \<open>
  C10 (as the code has it). On a table that is not empty, a query that is not empty after
  trimming but whose normalised form is empty gets a result that is not empty: when some
  records have an empty normalised name, the first five of those (the exact tier);
  otherwise the first five records of the table (the substring tier, since the empty
  string occurs in every name).
\<close>

theorem empty_normalized_query:
  assumes "str_strip U (case q of None \<Rightarrow> [] | Some s \<Rightarrow> s) \<noteq> []"
    and "backend_normalize_name U (PyStr (str_strip U (case q of None \<Rightarrow> [] | Some s \<Rightarrow> s))) = []"
    and "reservas_list \<noteq> []"
  shows "api_reservas U gcm reservas_list q \<noteq> []
         \<and> api_reservas U gcm reservas_list q =
             (if \<exists>r\<in>set reservas_list. backend_normalize_name U (dict_get r nombre) = []
              then take 5 (filter (\<lambda>r. backend_normalize_name U (dict_get r nombre) = []) reservas_list)
              else take 5 reservas_list)"
proof (cases "\<exists>r\<in>set reservas_list. backend_normalize_name U (dict_get r nombre) = []")
  case True
  then have "filter (\<lambda>r. backend_normalize_name U (dict_get r nombre) = []) reservas_list \<noteq> []"
    by (simp add: filter_empty_conv)
  with True assms show ?thesis
    by (simp add: api_reservas_def Let_def)
next
  case False
  then have "filter (\<lambda>r. backend_normalize_name U (dict_get r nombre) = []) reservas_list = []"
    by (simp add: filter_empty_conv)
  with False assms show ?thesis
    by (simp add: api_reservas_def Let_def str_contains_sublist)
qed

theorem empty_normalized_query_witness:
  "str_strip ucd (str_of ''!!!'') \<noteq> []
   \<and> backend_normalize_name ucd (PyStr (str_strip ucd (str_of ''!!!''))) = []
   \<and> ex_null \<noteq> [] \<and> ex_table \<noteq> []
   \<and> api_reservas ucd (\<lambda>w ps n c. []) ex_null (Some (str_of ''!!!'')) = [[(nombre, PyNone)]]
   \<and> api_reservas ucd (\<lambda>w ps n c. []) ex_table (Some (str_of ''!!!'')) = ex_table"
proof -
  note ev = dict_get_def ex_norms strip_bangs norm_bangs norm_None
  have h1: "str_strip ucd (case Some (str_of ''!!!'') of None \<Rightarrow> [] | Some s \<Rightarrow> s) \<noteq> []"
    by (simp add: ev) (simp add: str_of_def)
  have h2: "backend_normalize_name ucd (PyStr (str_strip ucd
              (case Some (str_of ''!!!'') of None \<Rightarrow> [] | Some s \<Rightarrow> s))) = []"
    by (simp add: ev)
  have h3: "ex_null \<noteq> []" by (simp add: ex_null_def)
  have h4: "ex_table \<noteq> []" by (simp add: ex_table_def)
  have a: "api_reservas ucd (\<lambda>w ps n c. []) ex_null (Some (str_of ''!!!'')) = [[(nombre, PyNone)]]"
    using empty_normalized_query [OF h1 h2 h3, of "\<lambda>w ps n c. []", THEN conjunct2]
    by (simp add: ev norm_Otamendi ex_null_def) (simp add: str_of_def)
  have b: "api_reservas ucd (\<lambda>w ps n c. []) ex_table (Some (str_of ''!!!'')) = ex_table"
    using empty_normalized_query [OF h1 h2 h4, of "\<lambda>w ps n c. []", THEN conjunct2]
    by (simp add: ev ex_table_def) (simp add: str_of_def)
  from h1 h2 h3 h4 a b show ?thesis by simp
qed

theorem empty_normalized_query_counterexample:
  "str_strip ucd (str_of ''!!!'') \<noteq> []
   \<and> backend_normalize_name ucd (PyStr (str_strip ucd (str_of ''!!!''))) = []
   \<and> ex_null \<noteq> []
   \<and> api_reservas ucd (\<lambda>w ps n c. []) ex_null (Some (str_of ''!!!'')) \<noteq> take 5 ex_null"
  unfolding api_reservas_def Let_def ex_null_def
  by (simp add: dict_get_def strip_bangs norm_bangs norm_None norm_Otamendi) (simp add: str_of_def)

section \<open>Normalisation applied twice\<close>

lemma split_from_token:
  "\<forall>c\<in>set cur. \<not> u_isspace U c \<Longrightarrow> w \<in> set (split_from U cur s) \<Longrightarrow> token U w"
proof (induction U cur s arbitrary: w rule: split_from.induct)
  case (1 U cur)
  then show ?case by (simp add: token_def split: if_splits)
next
  case (2 U cur c cs)
  show ?case
  proof (cases "u_isspace U c")
    case True
    show ?thesis
    proof (cases "cur = []")
      case True
      with 2 \<open>u_isspace U c\<close> show ?thesis by simp
    next
      case False
      with 2 \<open>u_isspace U c\<close> have "w = cur \<or> w \<in> set (split_from U [] cs)" by simp
      then show ?thesis
      proof
        assume "w = cur"
        with False "2.prems"(1) show ?thesis by (simp add: token_def)
      next
        assume "w \<in> set (split_from U [] cs)"
        with 2 True False show ?thesis by simp
      qed
    qed
  next
    case False
    with 2 have "w \<in> set (split_from U (cur @ [c]) cs)" by simp
    moreover from 2 False have "\<forall>d\<in>set (cur @ [c]). \<not> u_isspace U d" by simp
    ultimately show ?thesis using 2 False by blast
  qed
qed

lemma split_from_tokens:
  "\<forall>c\<in>set cur. \<not> u_isspace U c \<Longrightarrow> \<forall>w\<in>set (split_from U cur s). token U w"
  using split_from_token by blast

lemma split_from_chars:
  "w \<in> set (split_from U cur s) \<Longrightarrow> set w \<subseteq> set cur \<union> set s"
  by (induction U cur s arbitrary: w rule: split_from.induct) (auto split: if_splits)

lemma split_from_run:
  "\<forall>c\<in>set w. \<not> u_isspace U c \<Longrightarrow> split_from U cur (w @ rest) = split_from U (cur @ w) rest"
  by (induction w arbitrary: cur) auto

lemma split_join:
  "u_isspace U 32 \<Longrightarrow> \<forall>w\<in>set ws. token U w \<Longrightarrow> split_from U [] (join_space ws) = ws"
proof (induction ws rule: join_space.induct)
  case 1
  then show ?case by simp
next
  case (2 w)
  then have "split_from U [] (w @ []) = split_from U ([] @ w) []"
    by (intro split_from_run) (simp add: token_def)
  with 2 show ?case by (simp add: token_def)
next
  case (3 w v ws)
  from 3 have "split_from U [] (w @ 32 # join_space (v # ws)) = split_from U ([] @ w) (32 # join_space (v # ws))"
    by (intro split_from_run) (simp add: token_def)
  with 3 show ?case by (simp add: token_def)
qed

lemma join_space_chars: "set (join_space ws) \<subseteq> insert 32 (\<Union> (set ` set ws))"
  by (induction ws rule: join_space.induct) auto

lemma join_space_nonempty:
  "\<forall>w\<in>set ws. token U w \<Longrightarrow> ws \<noteq> [] \<Longrightarrow> join_space ws \<noteq> []"
  by (induction ws rule: join_space.induct) (auto simp: token_def)

lemma join_space_hd:
  "\<forall>w\<in>set ws. token U w \<Longrightarrow> ws \<noteq> [] \<Longrightarrow> hd (join_space ws) = hd (hd ws)"
  by (induction ws rule: join_space.induct) (auto simp: token_def)

lemma join_space_last:
  "\<forall>w\<in>set ws. token U w \<Longrightarrow> ws \<noteq> [] \<Longrightarrow> last (join_space ws) = last (last ws)"
proof (induction ws rule: join_space.induct)
  case (3 w v ws)
  then have "join_space (v # ws) \<noteq> []"
    using join_space_nonempty[of "v # ws" U] by simp
  with 3 show ?case by simp
qed simp_all

lemma str_strip_id:
  assumes "s \<noteq> []" "\<not> u_isspace U (hd s)" "\<not> u_isspace U (last s)"
  shows "str_strip U s = s"
proof -
  from assms have a: "dropWhile (u_isspace U) s = s"
    by (cases s) auto
  from assms have "rev s \<noteq> []" "\<not> u_isspace U (hd (rev s))"
    by (auto simp: hd_rev)
  then have "dropWhile (u_isspace U) (rev s) = rev s"
    by (cases "rev s") auto
  with a show ?thesis by (simp add: str_strip_def)
qed

lemma str_strip_join:
  assumes "\<forall>w\<in>set ws. token U w"
  shows "str_strip U (join_space ws) = join_space ws"
proof (cases "ws = []")
  case True
  then show ?thesis by (simp add: str_strip_def)
next
  case False
  with assms have ne: "join_space ws \<noteq> []" and h: "hd (join_space ws) = hd (hd ws)"
    and l: "last (join_space ws) = last (last ws)"
    using join_space_nonempty join_space_hd join_space_last by blast+
  from False assms have "token U (hd ws)" "token U (last ws)" by auto
  then have "\<not> u_isspace U (hd (hd ws))" "\<not> u_isspace U (last (last ws))"
    by (auto simp: token_def)
  with ne h l show ?thesis by (intro str_strip_id) auto
qed

lemma normalize_fixpoint:
  assumes sp: "u_isspace U 32"
    and y: "y = backend_normalize_name U (PyStr x)"
    and low: "u_lower U y = y"
    and dec: "u_nfkd U y = y"
    and comb: "\<forall>c\<in>set y. u_combining U c = 0"
  shows "backend_normalize_name U (PyStr y) = y"
proof (cases "x = []")
  case True
  with y show ?thesis by (simp add: backend_normalize_name_def)
next
  case False
  define z where "z = map (\<lambda>ch. if u_isalnum U ch \<or> u_isspace U ch \<or> ch = 45 \<or> ch = 95 then ch else 32)
      (filter (\<lambda>ch. u_combining U ch = 0) (u_nfkd U (u_lower U (str_strip U x))))"
  define ws where "ws = split_from U [] z"
  from False y have y_eq: "y = join_space ws"
    by (simp add: backend_normalize_name_def Let_def z_def ws_def str_split_def)
  have toks: "\<forall>w\<in>set ws. token U w"
    unfolding ws_def by (rule split_from_tokens) simp
  have zkeep: "\<forall>c\<in>set z. u_isalnum U c \<or> u_isspace U c \<or> c = 45 \<or> c = 95"
    using sp by (auto simp: z_def)
  have "\<forall>w\<in>set ws. set w \<subseteq> set z"
    using split_from_chars[of _ U "[]" z] by (auto simp: ws_def)
  with zkeep join_space_chars[of ws] sp
  have ykeep: "\<forall>c\<in>set y. u_isalnum U c \<or> u_isspace U c \<or> c = 45 \<or> c = 95"
    unfolding y_eq by blast
  have strip: "str_strip U y = y"
    unfolding y_eq using toks by (rule str_strip_join)
  have filt: "filter (\<lambda>ch. u_combining U ch = 0) y = y"
    using comb by simp
  have keep: "map (\<lambda>ch. if u_isalnum U ch \<or> u_isspace U ch \<or> ch = 45 \<or> ch = 95 then ch else 32) y = y"
    using ykeep by (simp add: map_idI)
  have sj: "join_space (str_split U y) = y"
    unfolding y_eq str_split_def using split_join[OF sp toks] by simp
  show ?thesis
    by (simp add: backend_normalize_name_def Let_def strip low dec filt keep sj)
qed


lemma fragment_stable:
  assumes "in_fragment c" "d \<in> set (decomp_cp (lower_cp c))"
  shows "lower_cp d = d \<and> decomp_cp d = [d]"
proof -
  consider "c < 128" | "c \<in> {193, 201, 205, 209, 211, 218, 220, 225, 233, 237, 241, 243, 250, 252}"
    | "c \<in> {769, 771, 776}"
    using assms(1) by (auto simp: in_fragment_def)
  then show ?thesis
  proof cases
    case 1
    then have "lower_cp c < 160" by (simp add: lower_cp_def)
    then have "decomp_cp (lower_cp c) = [lower_cp c]" by (simp add: decomp_cp_def)
    with assms(2) have d: "d = lower_cp c" by simp
    from 1 have "lower_cp (lower_cp c) = lower_cp c" by (simp add: lower_cp_def)
    moreover from \<open>lower_cp c < 160\<close> have "decomp_cp (lower_cp c) = [lower_cp c]"
      by (simp add: decomp_cp_def)
    ultimately show ?thesis using d by simp
  next
    case 2
    with assms(2) show ?thesis
      by (auto simp: lower_cp_def decomp_cp_def)
  next
    case 3
    with assms(2) show ?thesis
      by (auto simp: lower_cp_def decomp_cp_def)
  qed
qed

lemma set_str_strip: "set (str_strip U s) \<subseteq> set s"
proof -
  have "set (dropWhile (u_isspace U) (rev (dropWhile (u_isspace U) s))) \<subseteq> set (rev (dropWhile (u_isspace U) s))"
    by (meson set_dropWhileD subsetI)
  also have "\<dots> \<subseteq> set s"
    by (auto dest: set_dropWhileD)
  finally show ?thesis by (simp add: str_strip_def)
qed

lemma normalize_chars:
  assumes "d \<in> set (backend_normalize_name U (PyStr x))"
  shows "d = 32 \<or> (d \<in> set (u_nfkd U (u_lower U (str_strip U x))) \<and> u_combining U d = 0)"
proof (cases "x = []")
  case True
  with assms show ?thesis by (simp add: backend_normalize_name_def)
next
  case False
  define z where "z = map (\<lambda>ch. if u_isalnum U ch \<or> u_isspace U ch \<or> ch = 45 \<or> ch = 95 then ch else 32)
      (filter (\<lambda>ch. u_combining U ch = 0) (u_nfkd U (u_lower U (str_strip U x))))"
  from False assms have "d \<in> set (join_space (split_from U [] z))"
    by (simp add: backend_normalize_name_def Let_def z_def str_split_def)
  with join_space_chars [of "split_from U [] z"] split_from_chars [of _ U "[]" z]
  have "d = 32 \<or> d \<in> set z" by auto
  then show ?thesis by (auto simp: z_def split: if_splits)
qed

lemma concat_singletons: "\<forall>d\<in>set y. f d = [d] \<Longrightarrow> concat (map f y) = y"
  by (induction y) auto

lemma ucd_normalized_stable:
  assumes frag: "\<forall>c\<in>set x. in_fragment c"
    and d: "d \<in> set (backend_normalize_name ucd (PyStr x))"
  shows "lower_cp d = d \<and> decomp_cp d = [d] \<and> combining_cp d = 0"
proof -
  from normalize_chars [OF d]
  consider "d = 32" | "d \<in> set (concat (map decomp_cp (map lower_cp (str_strip ucd x))))" "combining_cp d = 0"
    by (auto simp: ucd_sel)
  then show ?thesis
  proof cases
    case 1
    then show ?thesis by (simp add: cp_defs)
  next
    case 2
    then obtain c where "c \<in> set (str_strip ucd x)" "d \<in> set (decomp_cp (lower_cp c))"
      by auto
    with frag set_str_strip [of ucd x] have "in_fragment c" by auto
    with \<open>d \<in> set (decomp_cp (lower_cp c))\<close> 2 show ?thesis
      using fragment_stable by blast
  qed
qed

text \<open>
  Normalisation always returns a string, the empty one for an absent or empty argument.
  Applying it to one of its results \<open>y\<close> gives \<open>y\<close> again whenever \<open>y\<close> is left unchanged by
  lower-casing and by compatibility decomposition and holds no combining character (the
  space being a whitespace character); with the tables of \<open>ucd\<close> this is so for every
  string of ASCII characters, accented Spanish letters and their combining marks.
\<close>

lemma normalize_idempotent_on_fragment:
  "backend_normalize_name U PyNone = []
   \<and> backend_normalize_name U (PyStr []) = []
   \<and> (u_isspace U 32
        \<and> u_lower U (backend_normalize_name U (PyStr x)) = backend_normalize_name U (PyStr x)
        \<and> u_nfkd U (backend_normalize_name U (PyStr x)) = backend_normalize_name U (PyStr x)
        \<and> (\<forall>c\<in>set (backend_normalize_name U (PyStr x)). u_combining U c = 0)
      \<longrightarrow> backend_normalize_name U (PyStr (backend_normalize_name U (PyStr x)))
            = backend_normalize_name U (PyStr x))
   \<and> ((\<forall>c\<in>set x. in_fragment c)
      \<longrightarrow> backend_normalize_name ucd (PyStr (backend_normalize_name ucd (PyStr x)))
            = backend_normalize_name ucd (PyStr x))"
proof (intro conjI impI)
  show "backend_normalize_name U PyNone = []"
    by (simp add: backend_normalize_name_def)
  show "backend_normalize_name U (PyStr []) = []"
    by (simp add: backend_normalize_name_def)
next
  assume "u_isspace U 32
        \<and> u_lower U (backend_normalize_name U (PyStr x)) = backend_normalize_name U (PyStr x)
        \<and> u_nfkd U (backend_normalize_name U (PyStr x)) = backend_normalize_name U (PyStr x)
        \<and> (\<forall>c\<in>set (backend_normalize_name U (PyStr x)). u_combining U c = 0)"
  then show "backend_normalize_name U (PyStr (backend_normalize_name U (PyStr x)))
            = backend_normalize_name U (PyStr x)"
    using normalize_fixpoint [of U "backend_normalize_name U (PyStr x)" x] by blast
next
  assume frag: "\<forall>c\<in>set x. in_fragment c"
  define y where "y = backend_normalize_name ucd (PyStr x)"
  have st: "\<forall>d\<in>set y. lower_cp d = d \<and> decomp_cp d = [d] \<and> combining_cp d = 0"
    unfolding y_def using ucd_normalized_stable [OF frag] by blast
  have "u_isspace ucd 32" by (simp add: ucd_sel isspace_cp_def)
  moreover have "u_lower ucd y = y" using st by (simp add: ucd_sel map_idI)
  moreover have "u_nfkd ucd y = y" using st by (simp add: ucd_sel concat_singletons)
  moreover have "\<forall>c\<in>set y. u_combining ucd c = 0" using st by (simp add: ucd_sel)
  ultimately have "backend_normalize_name ucd (PyStr y) = y"
    using normalize_fixpoint [of ucd y x] y_def by blast
  then show "backend_normalize_name ucd (PyStr (backend_normalize_name ucd (PyStr x)))
            = backend_normalize_name ucd (PyStr x)"
    by (simp add: y_def)
qed

lemma norm_samborombon: "backend_normalize_name ucd (PyStr ex_samborombon) = str_of ''samborombon''"
  unfolding backend_normalize_name_def Let_def ex_samborombon_def by (simp add: eval_defs)

lemma normalize_idempotent_on_samborombon:
  "list_all in_fragment ex_samborombon
   \<and> backend_normalize_name ucd (PyStr ex_samborombon) = str_of ''samborombon''
   \<and> backend_normalize_name ucd (PyStr (backend_normalize_name ucd (PyStr ex_samborombon)))
       = str_of ''samborombon''"
proof -
  have h: "\<forall>c\<in>set ex_samborombon. in_fragment c"
    by (simp add: ex_samborombon_def in_fragment_def)
  from normalize_idempotent_on_fragment [of ucd ex_samborombon] h
  have "backend_normalize_name ucd (PyStr (backend_normalize_name ucd (PyStr ex_samborombon)))
          = backend_normalize_name ucd (PyStr ex_samborombon)"
    by blast
  with h show ?thesis by (simp add: norm_samborombon list_all_iff)
qed

text \<open>
  C5. Normalisation is not idempotent on every string. It lower-cases first and decomposes
  afterwards, so the upper-case letters that a compatibility decomposition produces stay
  in the result: the trade mark sign (U+2122) has no lower case and decomposes to \<open>TM\<close>,
  its normalised form is \<open>TM\<close>, and the normalised form of that is \<open>tm\<close>.
\<close>

theorem normalize_name_trade_mark:
  "backend_normalize_name ucd (PyStr [8482]) = str_of ''TM''
   \<and> backend_normalize_name ucd (PyStr (backend_normalize_name ucd (PyStr [8482]))) = str_of ''tm''
   \<and> backend_normalize_name ucd (PyStr (backend_normalize_name ucd (PyStr [8482])))
       \<noteq> backend_normalize_name ucd (PyStr [8482])"
proof -
  have a: "backend_normalize_name ucd (PyStr [8482]) = [84, 77]"
    unfolding backend_normalize_name_def Let_def by (simp add: eval_defs)
  have b: "backend_normalize_name ucd (PyStr [84, 77]) = [116, 109]"
    unfolding backend_normalize_name_def Let_def by (simp add: eval_defs)
  show ?thesis by (simp add: a b str_of_def)
qed

section \<open>The dialogue engine\<close>

lemma index_nodes_ids:
  assumes "index_nodes nodes m = Inr idx"
    and "\<forall>k n. m k = Some n \<longrightarrow> n_id n = Some k"
    and "idx k = Some n"
  shows "n_id n = Some k"
  using assms
proof (induction nodes arbitrary: m)
  case Nil
  then show ?case by simp
next
  case (Cons node nodes)
  from Cons.prems(1) obtain k' where k': "n_id node = Some k'"
    and rest: "index_nodes nodes (m(k' \<mapsto> node)) = Inr idx"
    by (auto split: option.splits)
  have "\<forall>k n. (m(k' \<mapsto> node)) k = Some n \<longrightarrow> n_id n = Some k"
    using Cons.prems(2) k' by auto
  from Cons.IH [OF rest this Cons.prems(3)] show ?case .
qed

lemma scan_options_find:
  "scan_options option_id opts =
     (case find (\<lambda>opt. o_id opt = option_id) opts of None \<Rightarrow> PyNone | Some opt \<Rightarrow> o_next_node_id opt)"
  by (induction opts) auto

lemma index_ex_nodes: "index_nodes [ex_node_A, ex_node_B] Map.empty = Inr ex_idx"
  by (simp add: ex_node_A_def ex_node_B_def ex_idx_def)

lemma str_of_eq_iff: "str_of a = str_of b \<longleftrightarrow> a = b"
proof -
  have "inj (of_char :: char \<Rightarrow> nat)"
    by (rule injI) simp
  then show ?thesis
    by (simp add: str_of_def inj_map_eq_map)
qed

lemma str_of_empty_iff: "str_of a = [] \<longleftrightarrow> a = []"
  by (simp add: str_of_def)

text \<open>
  C1. On a node of type menu or response of a loaded graph: without an \<open>option_id\<close>
  (absent or empty) the call fails with the InputError; otherwise the first option of the
  node with that id is selected, later ones with the same id being ignored, and the call
  fails with a NotFoundError when there is no such option, when the option selected has no
  \<open>next_node_id\<close> (absent or empty), or when that id is not in the graph; otherwise it
  returns the node stored under that id, whose id it is.
\<close>

theorem resolve_menu_response:
  assumes idx: "index_nodes nodes Map.empty = Inr idx"
    and cur: "idx current_node_id = Some current_node"
    and ty: "n_type current_node = PyStr (str_of ''menu'') \<or> n_type current_node = PyStr (str_of ''response'')"
  shows "resolve_next_node idx current_node_id option_id user_input =
           (if option_id = PyNone \<or> option_id = PyStr [] then Inl FaltaOptionId
            else case find (\<lambda>opt. o_id opt = option_id) (n_options current_node) of
                   None \<Rightarrow> Inl (OptionNoExiste option_id current_node_id)
                 | Some opt \<Rightarrow>
                     (case o_next_node_id opt of
                        PyNone \<Rightarrow> Inl (OptionNoExiste option_id current_node_id)
                      | PyStr next_node_id \<Rightarrow>
                          if next_node_id = [] then Inl (OptionNoExiste option_id current_node_id)
                          else (case idx next_node_id of
                                  None \<Rightarrow> Inl (NextNodeNoExiste next_node_id)
                                | Some node \<Rightarrow> Inr node)))
         \<and> (\<forall>e. resolve_next_node idx current_node_id option_id user_input = Inl e \<longrightarrow>
               menu_error_kind e
                 = (if option_id = PyNone \<or> option_id = PyStr [] then InputError else NotFoundError))
         \<and> (\<forall>node. resolve_next_node idx current_node_id option_id user_input = Inr node \<longrightarrow>
               (\<exists>opt next_node_id.
                  find (\<lambda>opt. o_id opt = option_id) (n_options current_node) = Some opt
                  \<and> o_next_node_id opt = PyStr next_node_id
                  \<and> n_id node = Some next_node_id))"
proof -
  have eq: "resolve_next_node idx current_node_id option_id user_input =
           (if option_id = PyNone \<or> option_id = PyStr [] then Inl FaltaOptionId
            else case find (\<lambda>opt. o_id opt = option_id) (n_options current_node) of
                   None \<Rightarrow> Inl (OptionNoExiste option_id current_node_id)
                 | Some opt \<Rightarrow>
                     (case o_next_node_id opt of
                        PyNone \<Rightarrow> Inl (OptionNoExiste option_id current_node_id)
                      | PyStr next_node_id \<Rightarrow>
                          if next_node_id = [] then Inl (OptionNoExiste option_id current_node_id)
                          else (case idx next_node_id of
                                  None \<Rightarrow> Inl (NextNodeNoExiste next_node_id)
                                | Some node \<Rightarrow> Inr node)))"
    using cur ty
    by (auto simp: resolve_next_node_def Let_def py_not_def scan_options_find
             split: option.splits pyval.splits)
  have ids: "\<And>k n. idx k = Some n \<Longrightarrow> n_id n = Some k"
    using index_nodes_ids [OF idx] by simp
  have kinds: "\<forall>e. resolve_next_node idx current_node_id option_id user_input = Inl e \<longrightarrow>
               menu_error_kind e
                 = (if option_id = PyNone \<or> option_id = PyStr [] then InputError else NotFoundError)"
    unfolding eq by (auto split: option.splits pyval.splits if_splits)
  have target: "\<forall>node. resolve_next_node idx current_node_id option_id user_input = Inr node \<longrightarrow>
               (\<exists>opt next_node_id.
                  find (\<lambda>opt. o_id opt = option_id) (n_options current_node) = Some opt
                  \<and> o_next_node_id opt = PyStr next_node_id
                  \<and> n_id node = Some next_node_id)"
    unfolding eq by (auto split: option.splits pyval.splits if_splits dest: ids)
  from eq kinds target show ?thesis by blast
qed

theorem resolve_menu_response_witness:
  "index_nodes [ex_node_A, ex_node_B] Map.empty = Inr ex_idx
   \<and> ex_idx (str_of ''A'') = Some ex_node_A
   \<and> n_type ex_node_A = PyStr (str_of ''menu'')
   \<and> resolve_next_node ex_idx (str_of ''A'') (PyStr (str_of ''1'')) PyNone = Inr ex_node_B
   \<and> resolve_next_node ex_idx (str_of ''A'') PyNone PyNone = Inl FaltaOptionId
   \<and> resolve_next_node ex_idx (str_of ''A'') (PyStr []) PyNone = Inl FaltaOptionId
   \<and> resolve_next_node ex_idx (str_of ''A'') (PyStr (str_of ''3'')) PyNone
       = Inl (OptionNoExiste (PyStr (str_of ''3'')) (str_of ''A''))
   \<and> resolve_next_node ex_idx (str_of ''A'') (PyStr (str_of ''2'')) PyNone
       = Inl (NextNodeNoExiste (str_of ''C''))"
proof -
  have cur: "ex_idx (str_of ''A'') = Some ex_node_A"
    by (simp add: ex_idx_def str_of_eq_iff)
  have ty: "n_type ex_node_A = PyStr (str_of ''menu'') \<or> n_type ex_node_A = PyStr (str_of ''response'')"
    by (simp add: ex_node_A_def n_type_def)
  note r = resolve_menu_response [OF index_ex_nodes cur ty, THEN conjunct1]
  have opts: "n_options ex_node_A =
         [\<lparr> o_id = PyStr (str_of ''1''), o_label = Some (PyStr (str_of ''uno'')), o_next_node_id = PyStr (str_of ''B'') \<rparr>,
          \<lparr> o_id = PyStr (str_of ''1''), o_label = Some (PyStr (str_of ''otro'')), o_next_node_id = PyStr (str_of ''A'') \<rparr>,
          \<lparr> o_id = PyStr (str_of ''2''), o_label = Some (PyStr (str_of ''dos'')), o_next_node_id = PyStr (str_of ''C'') \<rparr>]"
    by (simp add: ex_node_A_def)
  have "resolve_next_node ex_idx (str_of ''A'') (PyStr (str_of ''1'')) PyNone = Inr ex_node_B"
    unfolding r opts by (simp add: ex_idx_def str_of_eq_iff str_of_empty_iff)
  moreover have "resolve_next_node ex_idx (str_of ''A'') PyNone PyNone = Inl FaltaOptionId"
    unfolding r by simp
  moreover have "resolve_next_node ex_idx (str_of ''A'') (PyStr []) PyNone = Inl FaltaOptionId"
    unfolding r by simp
  moreover have "resolve_next_node ex_idx (str_of ''A'') (PyStr (str_of ''3'')) PyNone
       = Inl (OptionNoExiste (PyStr (str_of ''3'')) (str_of ''A''))"
    unfolding r opts by (simp add: ex_idx_def str_of_eq_iff str_of_empty_iff)
  moreover have "resolve_next_node ex_idx (str_of ''A'') (PyStr (str_of ''2'')) PyNone
       = Inl (NextNodeNoExiste (str_of ''C''))"
    unfolding r opts by (simp add: ex_idx_def str_of_eq_iff str_of_empty_iff)
  ultimately show ?thesis
    using index_ex_nodes cur by (simp add: ex_node_A_def n_type_def)
qed

text \<open>
  C6. On a node whose type is none of menu, response, input and end (a missing type
  included), the call never fails: it returns the node stored under the node's own
  \<open>next_node_id\<close> when there is one, and the current node itself when \<open>next_node_id\<close> is
  unset or is not an id of the graph.
\<close>

theorem resolve_fallback:
  assumes cur: "idx current_node_id = Some current_node"
    and ty: "n_type current_node \<notin> {PyStr (str_of ''menu''), PyStr (str_of ''response''),
                                     PyStr (str_of ''input''), PyStr (str_of ''end'')}"
  shows "resolve_next_node idx current_node_id option_id user_input =
           Inr (case n_next_node_id current_node of
                  PyNone \<Rightarrow> current_node
                | PyStr next_node_id \<Rightarrow>
                    (case idx next_node_id of None \<Rightarrow> current_node | Some node \<Rightarrow> node))"
  using cur ty
  by (auto simp: resolve_next_node_def Let_def split: option.splits pyval.splits)

theorem resolve_fallback_witness:
  "ex_idx_XY (str_of ''X'') = Some ex_node_X
   \<and> n_type ex_node_X \<notin> {PyStr (str_of ''menu''), PyStr (str_of ''response''),
                             PyStr (str_of ''input''), PyStr (str_of ''end'')}
   \<and> resolve_next_node ex_idx_XY (str_of ''X'') PyNone PyNone = Inr ex_node_B
   \<and> ex_idx_XY (str_of ''Y'') = Some ex_node_Y
   \<and> n_type ex_node_Y \<notin> {PyStr (str_of ''menu''), PyStr (str_of ''response''),
                             PyStr (str_of ''input''), PyStr (str_of ''end'')}
   \<and> resolve_next_node ex_idx_XY (str_of ''Y'') PyNone PyNone = Inr ex_node_Y"
proof -
  have curX: "ex_idx_XY (str_of ''X'') = Some ex_node_X"
    by (simp add: ex_idx_XY_def str_of_eq_iff)
  have tyX: "n_type ex_node_X \<notin> {PyStr (str_of ''menu''), PyStr (str_of ''response''),
                             PyStr (str_of ''input''), PyStr (str_of ''end'')}"
    by (simp add: ex_node_X_def n_type_def str_of_eq_iff)
  have curY: "ex_idx_XY (str_of ''Y'') = Some ex_node_Y"
    by (simp add: ex_idx_XY_def str_of_eq_iff)
  have tyY: "n_type ex_node_Y \<notin> {PyStr (str_of ''menu''), PyStr (str_of ''response''),
                             PyStr (str_of ''input''), PyStr (str_of ''end'')}"
    by (simp add: ex_node_Y_def n_type_def)
  have "resolve_next_node ex_idx_XY (str_of ''X'') PyNone PyNone = Inr ex_node_B"
    unfolding resolve_fallback [of ex_idx_XY "str_of ''X''" ex_node_X, OF curX tyX]
    by (simp add: ex_node_X_def ex_idx_XY_def str_of_eq_iff)
  moreover have "resolve_next_node ex_idx_XY (str_of ''Y'') PyNone PyNone = Inr ex_node_Y"
    unfolding resolve_fallback [of ex_idx_XY "str_of ''Y''" ex_node_Y, OF curY tyY]
    by (simp add: ex_node_Y_def ex_idx_XY_def str_of_eq_iff)
  ultimately show ?thesis using curX tyX curY tyY by blast
qed

section \<open>Loading the graph\<close>

lemma find_snoc:
  "find P (xs @ [x]) = (case find P xs of None \<Rightarrow> (if P x then Some x else None) | Some y \<Rightarrow> Some y)"
  by (induction xs) auto

lemma index_nodes_last:
  "index_nodes nodes m = Inr idx \<Longrightarrow>
     idx k = (case find (\<lambda>n. n_id n = Some k) (rev nodes) of None \<Rightarrow> m k | Some n \<Rightarrow> Some n)"
proof (induction nodes arbitrary: m)
  case Nil
  then show ?case by simp
next
  case (Cons node nodes)
  from Cons.prems obtain k' where k': "n_id node = Some k'"
    and rest: "index_nodes nodes (m(k' \<mapsto> node)) = Inr idx"
    by (auto split: option.splits)
  from Cons.IH [OF rest] k' show ?case
    by (auto simp: find_snoc split: option.splits)
qed

lemma index_nodes_total:
  "\<forall>n\<in>set nodes. n_id n \<noteq> None \<Longrightarrow> \<exists>idx. index_nodes nodes m = Inr idx"
  by (induction nodes arbitrary: m) auto

text \<open>
  C7 (as the code has it). When a definition loads, the node stored under an id is the last
  node of the sequence with that id: a later node with the same id replaces an earlier one.
\<close>

theorem nodes_index_last_wins:
  assumes "d_nodes bot_definition = Some nodes"
    and "load_bot bot_definition = Inr b"
  shows "nodes_index b k = find (\<lambda>n. n_id n = Some k) (rev nodes)"
proof -
  from assms obtain idx where "index_nodes nodes Map.empty = Inr idx" "nodes_index b = idx"
    by (auto simp: load_bot_def split: sum.splits)
  with index_nodes_last [of nodes Map.empty idx k] show ?thesis
    by (simp split: option.splits)
qed

lemma load_ex_def_dup:
  "load_bot ex_def_dup = Inr \<lparr> nodes_index = [str_of ''a'' \<mapsto> ex_second], start_node_id = str_of ''a'' \<rparr>"
  by (simp add: load_bot_def ex_def_dup_def ex_first_def ex_second_def)

theorem nodes_index_last_wins_witness:
  "d_nodes ex_def_dup = Some [ex_first, ex_second]
   \<and> load_bot ex_def_dup = Inr \<lparr> nodes_index = [str_of ''a'' \<mapsto> ex_second], start_node_id = str_of ''a'' \<rparr>
   \<and> nodes_index \<lparr> nodes_index = [str_of ''a'' \<mapsto> ex_second], start_node_id = str_of ''a'' \<rparr> (str_of ''a'')
       = Some ex_second"
proof -
  have d: "d_nodes ex_def_dup = Some [ex_first, ex_second]"
    by (simp add: ex_def_dup_def)
  from nodes_index_last_wins [OF d load_ex_def_dup, of "str_of ''a''"]
  have "nodes_index \<lparr> nodes_index = [str_of ''a'' \<mapsto> ex_second], start_node_id = str_of ''a'' \<rparr> (str_of ''a'')
       = Some ex_second"
    by (simp add: ex_first_def ex_second_def)
  with d load_ex_def_dup show ?thesis by blast
qed

text \<open>
  C7 as stated fails: of two nodes with the id \<open>a\<close>, the lookup returns the second, not the
  first.
\<close>

theorem nodes_index_first_counterexample:
  "d_nodes ex_def_dup = Some [ex_first, ex_second]
   \<and> n_id ex_first = Some (str_of ''a'') \<and> n_id ex_second = Some (str_of ''a'')
   \<and> loaded_node ex_def_dup (str_of ''a'') = Inr (Some ex_second)
   \<and> ex_second \<noteq> ex_first"
  by (simp add: loaded_node_def load_ex_def_dup)
     (simp add: ex_def_dup_def ex_first_def ex_second_def str_of_eq_iff)

text \<open>
  C8 (as the code has it). Loading fails, with a \<open>KeyError\<close>, when the definition has no
  \<open>nodes\<close> collection. It does not look at the start node: a definition whose nodes all
  have an id loads, with the start node id of the definition or the default
  \<open>inicio_menu\<close>, whether or not that id is the id of a node. When it is not, every start
  request is answered with the status 500.
\<close>

theorem load_bot_errors:
  "(d_nodes bot_definition = None \<longrightarrow> load_bot bot_definition = Inl (KeyError (str_of ''nodes'')))
   \<and> (d_nodes bot_definition = Some nodes \<and> (\<forall>n\<in>set nodes. n_id n \<noteq> None) \<longrightarrow>
        (\<exists>b. load_bot bot_definition = Inr b
              \<and> start_node_id b = (case d_start_node_id bot_definition of
                                     None \<Rightarrow> str_of ''inicio_menu'' | Some s \<Rightarrow> s)))
   \<and> (load_bot bot_definition = Inr b \<and> d_nodes bot_definition = Some nodes
        \<and> (\<forall>n\<in>set nodes. n_id n \<noteq> Some (start_node_id b)) \<longrightarrow>
        api_start b = Inl (500, start_node_id b))"
proof (intro conjI impI)
  assume "d_nodes bot_definition = None"
  then show "load_bot bot_definition = Inl (KeyError (str_of ''nodes''))"
    by (simp add: load_bot_def)
next
  assume a: "d_nodes bot_definition = Some nodes \<and> (\<forall>n\<in>set nodes. n_id n \<noteq> None)"
  then obtain idx where "index_nodes nodes Map.empty = Inr idx"
    using index_nodes_total by blast
  with a show "\<exists>b. load_bot bot_definition = Inr b
              \<and> start_node_id b = (case d_start_node_id bot_definition of
                                     None \<Rightarrow> str_of ''inicio_menu'' | Some s \<Rightarrow> s)"
    by (simp add: load_bot_def)
next
  assume a: "load_bot bot_definition = Inr b \<and> d_nodes bot_definition = Some nodes
        \<and> (\<forall>n\<in>set nodes. n_id n \<noteq> Some (start_node_id b))"
  then obtain idx where idx: "index_nodes nodes Map.empty = Inr idx" "nodes_index b = idx"
    by (auto simp: load_bot_def split: sum.splits)
  from a have "find (\<lambda>n. n_id n = Some (start_node_id b)) (rev nodes) = None"
    by (simp add: find_None_iff)
  with index_nodes_last [OF idx(1), of "start_node_id b"] idx(2)
  have "nodes_index b (start_node_id b) = None" by simp
  then show "api_start b = Inl (500, start_node_id b)"
    by (simp add: api_start_def)
qed

lemma load_ex_def_no_start:
  "load_bot ex_def_no_start
     = Inr \<lparr> nodes_index = [str_of ''B'' \<mapsto> ex_node_B], start_node_id = str_of ''inicio_menu'' \<rparr>"
  by (simp add: load_bot_def ex_def_no_start_def ex_node_B_def)

theorem load_bot_errors_witness:
  "load_bot \<lparr> d_nodes = None, d_start_node_id = Some (str_of ''A'') \<rparr> = Inl (KeyError (str_of ''nodes''))
   \<and> d_nodes ex_def_no_start = Some [ex_node_B]
   \<and> n_id ex_node_B \<noteq> None
   \<and> n_id ex_node_B \<noteq> Some (str_of ''inicio_menu'')
   \<and> load_bot ex_def_no_start
       = Inr \<lparr> nodes_index = [str_of ''B'' \<mapsto> ex_node_B], start_node_id = str_of ''inicio_menu'' \<rparr>
   \<and> api_start \<lparr> nodes_index = [str_of ''B'' \<mapsto> ex_node_B], start_node_id = str_of ''inicio_menu'' \<rparr>
       = Inl (500, str_of ''inicio_menu'')"
proof -
  have a: "load_bot \<lparr> d_nodes = None, d_start_node_id = Some (str_of ''A'') \<rparr> = Inl (KeyError (str_of ''nodes''))"
    using load_bot_errors [of "\<lparr> d_nodes = None, d_start_node_id = Some (str_of ''A'') \<rparr>"] by simp
  have d: "d_nodes ex_def_no_start = Some [ex_node_B]"
    by (simp add: ex_def_no_start_def)
  have ids: "\<forall>n\<in>set [ex_node_B]. n_id n \<noteq> None"
    by (simp add: ex_node_B_def)
  have nostart: "\<forall>n\<in>set [ex_node_B]. n_id n \<noteq> Some (str_of ''inicio_menu'')"
    by (simp add: ex_node_B_def str_of_eq_iff)
  have "api_start \<lparr> nodes_index = [str_of ''B'' \<mapsto> ex_node_B], start_node_id = str_of ''inicio_menu'' \<rparr>
       = Inl (500, str_of ''inicio_menu'')"
    using load_bot_errors [of ex_def_no_start "[ex_node_B]"
        "\<lparr> nodes_index = [str_of ''B'' \<mapsto> ex_node_B], start_node_id = str_of ''inicio_menu'' \<rparr>"]
      load_ex_def_no_start d nostart
    by simp
  with a d ids nostart load_ex_def_no_start show ?thesis by simp
qed

text \<open>
  C8 as stated fails in its second half: the definition whose only node is \<open>B\<close> and which
  names no start node loads, although the default start node \<open>inicio_menu\<close> is not the id
  of any of its nodes.
\<close>

theorem load_bot_start_counterexample:
  "d_nodes ex_def_no_start = Some [ex_node_B]
   \<and> d_start_node_id ex_def_no_start = None
   \<and> n_id ex_node_B \<noteq> Some (str_of ''inicio_menu'')
   \<and> \<not> isl (load_bot ex_def_no_start)"
  by (simp add: load_ex_def_no_start)
     (simp add: ex_def_no_start_def ex_node_B_def str_of_eq_iff)

section \<open>The unification step\<close>

lemma fill_fields_map_of:
  "map_of (fill_fields rec vals) k = (case map_of (rev vals) k of None \<Rightarrow> map_of rec k | Some v \<Rightarrow> Some v)"
proof (induction vals arbitrary: rec)
  case Nil
  then show ?case by (simp add: fill_fields_def)
next
  case (Cons kv vals)
  obtain kk vv where kv: "kv = (kk, vv)" by (cases kv)
  have "fill_fields rec (kv # vals) = fill_fields (dict_set rec kk vv) vals"
    by (simp add: fill_fields_def kv)
  then show ?case
    using Cons.IH [of "dict_set rec kk vv"]
    by (auto simp: kv dict_set_def update_conv' map_add_def split: option.splits)
qed

lemma fill_fields_keys: "fst ` set (fill_fields rec vals) = fst ` set rec \<union> fst ` set vals"
proof (induction vals arbitrary: rec)
  case Nil
  then show ?case by (simp add: fill_fields_def)
next
  case (Cons kv vals)
  obtain kk vv where kv: "kv = (kk, vv)" by (cases kv)
  have "fill_fields rec (kv # vals) = fill_fields (dict_set rec kk vv) vals"
    by (simp add: fill_fields_def kv)
  then show ?case
    using Cons.IH [of "dict_set rec kk vv"]
    by (auto simp: kv dict_set_def dom_update)
qed

lemma fill_fields_frame:
  assumes "k \<notin> fst ` set vals"
  shows "map_of (fill_fields rec vals) k = map_of rec k"
proof -
  from assms have "map_of (rev vals) k = None"
    by (simp add: map_of_eq_None_iff)
  then show ?thesis by (simp add: fill_fields_map_of)
qed

lemma build_norm_to_key_values:
  assumes "map_of (build_norm_to_key U ks n2k) nk = Some mk"
  shows "mk \<in> set ks \<or> map_of n2k nk = Some mk"
  using assms
proof (induction ks arbitrary: n2k)
  case Nil
  then show ?case by simp
next
  case (Cons k ks)
  then show ?case
    by (fastforce simp: Let_def update_conv' split: if_splits)
qed

lemma build_norm_to_key_keys:
  "fst ` set (build_norm_to_key U ks n2k)
     = fst ` set n2k \<union> {nk. nk \<noteq> [] \<and> nk \<in> (\<lambda>k. normalize_name U (PyStr k)) ` set ks}"
proof (induction ks arbitrary: n2k)
  case Nil
  then show ?case by simp
next
  case (Cons k ks)
  show ?case
    unfolding build_norm_to_key.simps Let_def Cons.IH
    by (auto simp: dom_update)
qed


lemma fill_fields_prefix: "prefix (map fst rec) (map fst (fill_fields rec vals))"
proof (induction vals arbitrary: rec)
  case Nil
  then show ?case by (simp add: fill_fields_def)
next
  case (Cons kv vals)
  obtain kk vv where kv: "kv = (kk, vv)" by (cases kv)
  have step: "fill_fields rec (kv # vals) = fill_fields (dict_set rec kk vv) vals"
    by (simp add: fill_fields_def kv)
  have "prefix (map fst rec) (map fst (dict_set rec kk vv))"
    by (simp add: dict_set_def update_keys)
  also have "prefix (map fst (dict_set rec kk vv)) (map fst (fill_fields (dict_set rec kk vv) vals))"
    by (rule Cons.IH)
  finally show ?case by (simp add: step)
qed

lemma build_norm_to_key_find:
  assumes "nk \<noteq> []"
  shows "map_of (build_norm_to_key U ks n2k) nk
           = (case find (\<lambda>k. normalize_name U (PyStr k) = nk) (rev ks) of
                None \<Rightarrow> map_of n2k nk | Some k \<Rightarrow> Some k)"
proof (induction ks arbitrary: n2k)
  case Nil
  then show ?case by simp
next
  case (Cons k ks)
  show ?case
    unfolding build_norm_to_key.simps Let_def Cons.IH
    using assms by (auto simp: find_snoc update_conv' split: option.splits)
qed

lemma norm_to_key_find:
  "nk \<noteq> [] \<Longrightarrow>
     map_of (build_norm_to_key U ks []) nk = find (\<lambda>k. normalize_name U (PyStr k) = nk) (rev ks)"
  by (simp add: build_norm_to_key_find split: option.splits)

lemma norm_to_key_lookup:
  assumes "nk \<in> fst ` set (build_norm_to_key U (map fst mapping) [])"
  shows "\<exists>mk vals. subscript (build_norm_to_key U (map fst mapping) []) nk = Inr mk
           \<and> find (\<lambda>k. normalize_name U (PyStr k) = nk) (rev (map fst mapping)) = Some mk
           \<and> subscript mapping mk = Inr vals \<and> map_of mapping mk = Some vals"
proof -
  from assms have ne: "nk \<noteq> []"
    by (auto simp: build_norm_to_key_keys)
  from assms obtain mk where mk: "map_of (build_norm_to_key U (map fst mapping) []) nk = Some mk"
    by (metis map_of_eq_None_iff not_None_eq)
  with norm_to_key_find [OF ne, of U "map fst mapping"]
  have f: "find (\<lambda>k. normalize_name U (PyStr k) = nk) (rev (map fst mapping)) = Some mk"
    by simp
  from build_norm_to_key_values [OF mk] have "mk \<in> fst ` set mapping" by simp
  then obtain vals where "map_of mapping mk = Some vals"
    by (metis map_of_eq_None_iff not_None_eq)
  with mk f show ?thesis by (simp add: subscript_def)
qed

lemma tier_normalized_iff:
  "tier_normalized U mapping rec \<longleftrightarrow>
     (case dict_get rec nombre of
        PyNone \<Rightarrow> False
      | PyStr name \<Rightarrow>
          normalize_name U (PyStr name) \<noteq> []
          \<and> map_of (build_norm_to_key U (map fst mapping) []) (normalize_name U (PyStr name)) \<noteq> None)"
proof -
  have "\<And>nk. nk \<noteq> [] \<Longrightarrow>
          (map_of (build_norm_to_key U (map fst mapping) []) nk \<noteq> None)
            = (nk \<in> set (map (\<lambda>k. normalize_name U (PyStr k)) (map fst mapping)))"
    by (auto simp: map_of_eq_None_iff build_norm_to_key_keys)
  then show ?thesis
    by (auto simp: tier_normalized_def split: pyval.splits)
qed

lemma visit_record_unmatched:
  assumes "\<not> matches_some_tier U gcm mapping rec"
  shows "visit_record U gcm mapping (build_norm_to_key U (map fst mapping) []) st rec
           = Inr (report_not_found st rec (dict_get rec nombre))"
proof (cases "dict_get rec nombre")
  case PyNone
  then show ?thesis by (simp add: visit_record_def)
next
  case (PyStr name)
  from assms PyStr have ex: "map_of mapping name = None"
    by (simp add: matches_some_tier_def tier_exact_def map_of_eq_None_iff)
  from assms PyStr have nm: "normalize_name U (PyStr name) = []
      \<or> map_of (build_norm_to_key U (map fst mapping) []) (normalize_name U (PyStr name)) = None"
    by (auto simp: matches_some_tier_def tier_normalized_iff)
  from assms PyStr have fz: "normalize_name U (PyStr name) = []
      \<or> gcm (normalize_name U (PyStr name))
           (map fst (build_norm_to_key U (map fst mapping) [])) 1 (75 / 100) = []"
    by (auto simp: matches_some_tier_def tier_fuzzy_def)
  from PyStr ex nm fz show ?thesis
    by (auto simp: visit_record_def Let_def)
qed


lemma matched_key_unmatched:
  assumes "\<not> matches_some_tier U gcm mapping rec"
  shows "matched_key U gcm mapping rec = None"
proof (cases "dict_get rec nombre")
  case PyNone
  then show ?thesis by (simp add: matched_key_def)
next
  case (PyStr name)
  define nname where "nname = normalize_name U (PyStr name)"
  from assms PyStr have ex: "name \<notin> set (map fst mapping)"
    by (simp add: matches_some_tier_def tier_exact_def)
  show ?thesis
  proof (cases "nname = []")
    case True
    with PyStr ex show ?thesis by (simp add: matched_key_def nname_def)
  next
    case False
    from assms PyStr False have "map_of (build_norm_to_key U (map fst mapping) []) nname = None"
      by (auto simp: matches_some_tier_def tier_normalized_iff nname_def)
    with norm_to_key_find [OF False, of U "map fst mapping"]
    have f: "find (\<lambda>k. normalize_name U (PyStr k) = nname) (rev (map fst mapping)) = None"
      by simp
    from assms PyStr False
    have "gcm nname (map fst (build_norm_to_key U (map fst mapping) [])) 1 (75 / 100) = []"
      by (auto simp: matches_some_tier_def tier_fuzzy_def nname_def)
    with PyStr ex False f show ?thesis
      by (simp add: matched_key_def nname_def)
  qed
qed

lemma visit_record_matched:
  assumes sound: "\<forall>w ps n c. set (gcm w ps n c) \<subseteq> set ps"
    and m: "matches_some_tier U gcm mapping rec"
  shows "\<exists>mk vals fm. matched_key U gcm mapping rec = Some mk
           \<and> map_of mapping mk = Some vals
           \<and> visit_record U gcm mapping (build_norm_to_key U (map fst mapping) []) st rec
               = Inr ((enrich st rec vals)\<lparr> fuzzy_matches := fm \<rparr>)"
proof (cases "dict_get rec nombre")
  case PyNone
  with m show ?thesis
    by (simp add: matches_some_tier_def tier_exact_def tier_normalized_def tier_fuzzy_def)
next
  case (PyStr name)
  define nname where "nname = normalize_name U (PyStr name)"
  define n2k where "n2k = build_norm_to_key U (map fst mapping) []"
  show ?thesis
  proof (cases "map_of mapping name")
    case (Some vals)
    then have "name \<in> set (map fst mapping)"
      by (metis map_of_eq_None_iff option.distinct(1) set_map)
    with PyStr have k: "matched_key U gcm mapping rec = Some name"
      by (simp add: matched_key_def)
    from Some PyStr have "visit_record U gcm mapping n2k st rec
        = Inr ((enrich st rec vals)\<lparr> fuzzy_matches := fuzzy_matches st \<rparr>)"
      by (simp add: visit_record_def enrich_def)
    with Some k show ?thesis unfolding n2k_def by blast
  next
    case None
    then have nokey: "name \<notin> set (map fst mapping)"
      by (simp add: map_of_eq_None_iff)
    show ?thesis
    proof (cases "nname \<noteq> [] \<and> map_of n2k nname \<noteq> None")
      case True
      then have "nname \<in> fst ` set n2k"
        by (simp add: map_of_eq_None_iff)
      from norm_to_key_lookup [OF this [unfolded n2k_def]] obtain mk vals where
        l: "subscript n2k nname = Inr mk"
           "find (\<lambda>k. normalize_name U (PyStr k) = nname) (rev (map fst mapping)) = Some mk"
           "subscript mapping mk = Inr vals" "map_of mapping mk = Some vals"
        unfolding n2k_def by blast
      from PyStr nokey True l(2) have k: "matched_key U gcm mapping rec = Some mk"
        by (simp add: matched_key_def nname_def)
      from PyStr None True l have "visit_record U gcm mapping n2k st rec
          = Inr ((enrich st rec vals)\<lparr> fuzzy_matches := fuzzy_matches st \<rparr>)"
        by (simp add: visit_record_def Let_def nname_def enrich_def)
      with l(4) k show ?thesis unfolding n2k_def by blast
    next
      case False
      from None have nex: "\<not> tier_exact mapping rec"
        by (simp add: tier_exact_def PyStr map_of_eq_None_iff)
      from False have nnorm: "\<not> tier_normalized U mapping rec"
        by (simp add: tier_normalized_iff PyStr nname_def n2k_def)
      from m nex nnorm have "tier_fuzzy U gcm mapping rec"
        by (simp add: matches_some_tier_def)
      then have ne: "nname \<noteq> []" and close: "gcm nname (map fst n2k) 1 (75 / 100) \<noteq> []"
        by (simp_all add: tier_fuzzy_def PyStr nname_def n2k_def)
      then obtain matched_norm rest where c: "gcm nname (map fst n2k) 1 (75 / 100) = matched_norm # rest"
        by (cases "gcm nname (map fst n2k) 1 (75 / 100)") auto
      with sound have "matched_norm \<in> set (map fst n2k)"
        by (metis list.set_intros(1) subsetD)
      then have "matched_norm \<in> fst ` set n2k" by simp
      from norm_to_key_lookup [OF this [unfolded n2k_def]] obtain mk vals where
        l: "subscript n2k matched_norm = Inr mk"
           "find (\<lambda>k. normalize_name U (PyStr k) = matched_norm) (rev (map fst mapping)) = Some mk"
           "subscript mapping mk = Inr vals" "map_of mapping mk = Some vals"
        unfolding n2k_def by blast
      from False ne have none: "map_of n2k nname = None" by simp
      with norm_to_key_find [OF ne, of U "map fst mapping"]
      have f: "find (\<lambda>k. normalize_name U (PyStr k) = nname) (rev (map fst mapping)) = None"
        by (simp add: n2k_def)
      from PyStr nokey ne f c l(2) have k: "matched_key U gcm mapping rec = Some mk"
        by (simp add: matched_key_def nname_def n2k_def)
      from PyStr None ne none c l have "visit_record U gcm mapping n2k st rec
          = Inr ((enrich st rec vals)\<lparr> fuzzy_matches := fuzzy_matches st @ [(name, mk)] \<rparr>)"
        by (simp add: visit_record_def Let_def nname_def)
      with l(4) k show ?thesis unfolding n2k_def by blast
    qed
  qed
qed

lemma visit_records_result:
  assumes sound: "\<forall>w ps n c. set (gcm w ps n c) \<subseteq> set ps"
  shows "\<exists>st' outs.
           visit_records U gcm mapping (build_norm_to_key U (map fst mapping) []) st recs = Inr st'
           \<and> records st' = records st @ outs
           \<and> list_all2 (\<lambda>r r'. if matches_some_tier U gcm mapping r
                                 then \<exists>mk vals. matched_key U gcm mapping r = Some mk
                                        \<and> map_of mapping mk = Some vals \<and> r' = fill_fields r vals
                                 else r' = r) recs outs
           \<and> not_found st' = not_found st
                @ map (\<lambda>r. dict_get r nombre) (filter (\<lambda>r. \<not> matches_some_tier U gcm mapping r) recs)
           \<and> updated st' = updated st + length (filter (matches_some_tier U gcm mapping) recs)"
proof (induction recs arbitrary: st)
  case Nil
  show ?case by simp
next
  case (Cons rec recs)
  show ?case
  proof (cases "matches_some_tier U gcm mapping rec")
    case True
    from visit_record_matched [OF sound True, of st] obtain mk vals fm where
      v: "matched_key U gcm mapping rec = Some mk" "map_of mapping mk = Some vals"
         "visit_record U gcm mapping (build_norm_to_key U (map fst mapping) []) st rec
            = Inr ((enrich st rec vals)\<lparr> fuzzy_matches := fm \<rparr>)"
      by blast
    from Cons.IH [of "(enrich st rec vals)\<lparr> fuzzy_matches := fm \<rparr>"] obtain st' outs where
      ih: "visit_records U gcm mapping (build_norm_to_key U (map fst mapping) [])
              ((enrich st rec vals)\<lparr> fuzzy_matches := fm \<rparr>) recs = Inr st'"
          "records st' = records ((enrich st rec vals)\<lparr> fuzzy_matches := fm \<rparr>) @ outs"
          "list_all2 (\<lambda>r r'. if matches_some_tier U gcm mapping r
                                 then \<exists>mk vals. matched_key U gcm mapping r = Some mk
                                        \<and> map_of mapping mk = Some vals \<and> r' = fill_fields r vals
                                 else r' = r) recs outs"
          "not_found st' = not_found ((enrich st rec vals)\<lparr> fuzzy_matches := fm \<rparr>)
                @ map (\<lambda>r. dict_get r nombre) (filter (\<lambda>r. \<not> matches_some_tier U gcm mapping r) recs)"
          "updated st' = updated ((enrich st rec vals)\<lparr> fuzzy_matches := fm \<rparr>)
                + length (filter (matches_some_tier U gcm mapping) recs)"
      by blast
    have "visit_records U gcm mapping (build_norm_to_key U (map fst mapping) []) st (rec # recs) = Inr st'"
      using v(3) ih(1) by simp
    moreover have "records st' = records st @ (fill_fields rec vals # outs)"
      using ih(2) by (simp add: enrich_def)
    moreover have "list_all2 (\<lambda>r r'. if matches_some_tier U gcm mapping r
                                 then \<exists>mk vals. matched_key U gcm mapping r = Some mk
                                        \<and> map_of mapping mk = Some vals \<and> r' = fill_fields r vals
                                 else r' = r) (rec # recs) (fill_fields rec vals # outs)"
      using ih(3) True v(1,2) by auto
    moreover have "not_found st' = not_found st
                @ map (\<lambda>r. dict_get r nombre) (filter (\<lambda>r. \<not> matches_some_tier U gcm mapping r) (rec # recs))"
      using ih(4) True by (simp add: enrich_def)
    moreover have "updated st' = updated st + length (filter (matches_some_tier U gcm mapping) (rec # recs))"
      using ih(5) True by (simp add: enrich_def)
    ultimately show ?thesis by blast
  next
    case False
    note v = visit_record_unmatched [OF False, of st]
    from Cons.IH [of "report_not_found st rec (dict_get rec nombre)"] obtain st' outs where
      ih: "visit_records U gcm mapping (build_norm_to_key U (map fst mapping) [])
              (report_not_found st rec (dict_get rec nombre)) recs = Inr st'"
          "records st' = records (report_not_found st rec (dict_get rec nombre)) @ outs"
          "list_all2 (\<lambda>r r'. if matches_some_tier U gcm mapping r
                                 then \<exists>mk vals. matched_key U gcm mapping r = Some mk
                                        \<and> map_of mapping mk = Some vals \<and> r' = fill_fields r vals
                                 else r' = r) recs outs"
          "not_found st' = not_found (report_not_found st rec (dict_get rec nombre))
                @ map (\<lambda>r. dict_get r nombre) (filter (\<lambda>r. \<not> matches_some_tier U gcm mapping r) recs)"
          "updated st' = updated (report_not_found st rec (dict_get rec nombre))
                + length (filter (matches_some_tier U gcm mapping) recs)"
      by blast
    have "visit_records U gcm mapping (build_norm_to_key U (map fst mapping) []) st (rec # recs) = Inr st'"
      using v ih(1) by simp
    moreover have "records st' = records st @ (rec # outs)"
      using ih(2) by (simp add: report_not_found_def)
    moreover have "list_all2 (\<lambda>r r'. if matches_some_tier U gcm mapping r
                                 then \<exists>mk vals. matched_key U gcm mapping r = Some mk
                                        \<and> map_of mapping mk = Some vals \<and> r' = fill_fields r vals
                                 else r' = r) (rec # recs) (rec # outs)"
      using ih(3) False by auto
    moreover have "not_found st' = not_found st
                @ map (\<lambda>r. dict_get r nombre) (filter (\<lambda>r. \<not> matches_some_tier U gcm mapping r) (rec # recs))"
      using ih(4) False by (simp add: report_not_found_def)
    moreover have "updated st' = updated st + length (filter (matches_some_tier U gcm mapping) (rec # recs))"
      using ih(5) False by (simp add: report_not_found_def)
    ultimately show ?thesis by blast
  qed
qed


text \<open>
  C9. Provided the matcher only ever returns candidates it was given, the unification step
  finishes and leaves as many records as it found, in the same order. The names of the
  records that match none of the three tiers are what it reports as not found, and these
  records are left exactly as they were. A record that matches receives the fields of the
  entry it is matched to, and of no other: the fields it had stay where they were, the
  fields of that entry are added or overwritten with the values of that entry, and every
  other field keeps its value.
\<close>

theorem fix_fill_non_destructive:
  assumes sound: "\<forall>w ps n c. set (gcm w ps n c) \<subseteq> set ps"
  shows "\<exists>st. fix_fill U gcm mapping recs = Inr st
           \<and> length (records st) = length recs
           \<and> not_found st
               = map (\<lambda>r. dict_get r nombre) (filter (\<lambda>r. \<not> matches_some_tier U gcm mapping r) recs)
           \<and> updated st = length (filter (matches_some_tier U gcm mapping) recs)
           \<and> (\<forall>i<length recs.
                 if matches_some_tier U gcm mapping (recs ! i)
                 then \<exists>mk vals. matched_key U gcm mapping (recs ! i) = Some mk
                        \<and> map_of mapping mk = Some vals
                        \<and> fst ` set (records st ! i) = fst ` set (recs ! i) \<union> fst ` set vals
                        \<and> (\<forall>k. k \<notin> fst ` set vals \<longrightarrow> map_of (records st ! i) k = map_of (recs ! i) k)
                        \<and> (\<forall>k\<in>fst ` set vals. \<exists>v. (k, v) \<in> set vals \<and> map_of (records st ! i) k = Some v)
                        \<and> (\<forall>k. map_of (records st ! i) k
                                   = (case map_of (rev vals) k of
                                        None \<Rightarrow> map_of (recs ! i) k | Some v \<Rightarrow> Some v))
                        \<and> prefix (map fst (recs ! i)) (map fst (records st ! i))
                 else matched_key U gcm mapping (recs ! i) = None \<and> records st ! i = recs ! i)"
proof -
  from visit_records_result [OF sound, of U mapping
      "\<lparr> records = [], updated = 0, not_found = [], fuzzy_matches = [] \<rparr>" recs]
  obtain st outs where
    r: "fix_fill U gcm mapping recs = Inr st"
       "records st = outs"
       "list_all2 (\<lambda>r r'. if matches_some_tier U gcm mapping r
                             then \<exists>mk vals. matched_key U gcm mapping r = Some mk
                                    \<and> map_of mapping mk = Some vals \<and> r' = fill_fields r vals
                             else r' = r) recs outs"
       "not_found st
          = map (\<lambda>r. dict_get r nombre) (filter (\<lambda>r. \<not> matches_some_tier U gcm mapping r) recs)"
       "updated st = length (filter (matches_some_tier U gcm mapping) recs)"
    by (auto simp: fix_fill_def)
  from r(2,3) have len: "length (records st) = length recs"
    by (simp add: list_all2_lengthD)
  have each: "\<forall>i<length recs.
                 if matches_some_tier U gcm mapping (recs ! i)
                 then \<exists>mk vals. matched_key U gcm mapping (recs ! i) = Some mk
                        \<and> map_of mapping mk = Some vals
                        \<and> fst ` set (records st ! i) = fst ` set (recs ! i) \<union> fst ` set vals
                        \<and> (\<forall>k. k \<notin> fst ` set vals \<longrightarrow> map_of (records st ! i) k = map_of (recs ! i) k)
                        \<and> (\<forall>k\<in>fst ` set vals. \<exists>v. (k, v) \<in> set vals \<and> map_of (records st ! i) k = Some v)
                        \<and> (\<forall>k. map_of (records st ! i) k
                                   = (case map_of (rev vals) k of
                                        None \<Rightarrow> map_of (recs ! i) k | Some v \<Rightarrow> Some v))
                        \<and> prefix (map fst (recs ! i)) (map fst (records st ! i))
                 else matched_key U gcm mapping (recs ! i) = None \<and> records st ! i = recs ! i"
  proof (intro allI impI)
    fix i assume i: "i < length recs"
    have q: "if matches_some_tier U gcm mapping (recs ! i)
        then \<exists>mk vals. matched_key U gcm mapping (recs ! i) = Some mk
               \<and> map_of mapping mk = Some vals \<and> records st ! i = fill_fields (recs ! i) vals
        else records st ! i = recs ! i"
      unfolding r(2) using list_all2_nthD [OF r(3) i] .
    show "if matches_some_tier U gcm mapping (recs ! i)
                 then \<exists>mk vals. matched_key U gcm mapping (recs ! i) = Some mk
                        \<and> map_of mapping mk = Some vals
                        \<and> fst ` set (records st ! i) = fst ` set (recs ! i) \<union> fst ` set vals
                        \<and> (\<forall>k. k \<notin> fst ` set vals \<longrightarrow> map_of (records st ! i) k = map_of (recs ! i) k)
                        \<and> (\<forall>k\<in>fst ` set vals. \<exists>v. (k, v) \<in> set vals \<and> map_of (records st ! i) k = Some v)
                        \<and> (\<forall>k. map_of (records st ! i) k
                                   = (case map_of (rev vals) k of
                                        None \<Rightarrow> map_of (recs ! i) k | Some v \<Rightarrow> Some v))
                        \<and> prefix (map fst (recs ! i)) (map fst (records st ! i))
                 else matched_key U gcm mapping (recs ! i) = None \<and> records st ! i = recs ! i"
    proof (cases "matches_some_tier U gcm mapping (recs ! i)")
      case True
      with q obtain mk vals where mv: "matched_key U gcm mapping (recs ! i) = Some mk"
          "map_of mapping mk = Some vals"
          "records st ! i = fill_fields (recs ! i) vals"
        by auto
      have vs: "\<forall>k\<in>fst ` set vals. \<exists>v. (k, v) \<in> set vals \<and> map_of (fill_fields (recs ! i) vals) k = Some v"
      proof
        fix k assume "k \<in> fst ` set vals"
        then have "k \<in> fst ` set (rev vals)" by simp
        then obtain v where v: "map_of (rev vals) k = Some v"
          by (metis map_of_eq_None_iff not_None_eq)
        then have "(k, v) \<in> set vals"
          using map_of_SomeD by fastforce
        with v show "\<exists>v. (k, v) \<in> set vals \<and> map_of (fill_fields (recs ! i) vals) k = Some v"
          by (auto simp: fill_fields_map_of)
      qed
      have keys: "fst ` set (records st ! i) = fst ` set (recs ! i) \<union> fst ` set vals"
        unfolding mv(3) by (rule fill_fields_keys)
      have frame: "\<forall>k. k \<notin> fst ` set vals \<longrightarrow> map_of (records st ! i) k = map_of (recs ! i) k"
        unfolding mv(3) by (simp add: fill_fields_frame)
      have vals: "\<forall>k\<in>fst ` set vals. \<exists>v. (k, v) \<in> set vals \<and> map_of (records st ! i) k = Some v"
        unfolding mv(3) by (rule vs)
      have full: "\<forall>k. map_of (records st ! i) k
                     = (case map_of (rev vals) k of None \<Rightarrow> map_of (recs ! i) k | Some v \<Rightarrow> Some v)"
        unfolding mv(3) by (simp add: fill_fields_map_of)
      have pre: "prefix (map fst (recs ! i)) (map fst (records st ! i))"
        unfolding mv(3) by (rule fill_fields_prefix)
      from mv(1,2) keys frame vals full pre
      have "\<exists>mk vals. matched_key U gcm mapping (recs ! i) = Some mk
                        \<and> map_of mapping mk = Some vals
                        \<and> fst ` set (records st ! i) = fst ` set (recs ! i) \<union> fst ` set vals
                        \<and> (\<forall>k. k \<notin> fst ` set vals \<longrightarrow> map_of (records st ! i) k = map_of (recs ! i) k)
                        \<and> (\<forall>k\<in>fst ` set vals. \<exists>v. (k, v) \<in> set vals \<and> map_of (records st ! i) k = Some v)
                        \<and> (\<forall>k. map_of (records st ! i) k
                                   = (case map_of (rev vals) k of
                                        None \<Rightarrow> map_of (recs ! i) k | Some v \<Rightarrow> Some v))
                        \<and> prefix (map fst (recs ! i)) (map fst (records st ! i))"
        by blast
      with True show ?thesis by simp
    next
      case False
      with q matched_key_unmatched [OF False] show ?thesis by simp
    qed
  qed
  from r(1) len r(4) r(5) each show ?thesis by blast
qed

text \<open>The example, evaluated.\<close>

lemma nn_Otamendi: "normalize_name ucd (PyStr (str_of ''Otamendi'')) = str_of ''otamendi''"
  unfolding normalize_name_def Let_def by (simp add: eval_defs)

lemma nn_OTAMENDI: "normalize_name ucd (PyStr (str_of ''OTAMENDI'')) = str_of ''otamendi''"
  unfolding normalize_name_def Let_def by (simp add: eval_defs)

lemma nn_otamendi: "normalize_name ucd (PyStr (str_of ''otamendi'')) = str_of ''otamendi''"
  unfolding normalize_name_def Let_def by (simp add: eval_defs)

lemma nn_Otamendy: "normalize_name ucd (PyStr (str_of ''Otamendy'')) = str_of ''otamendy''"
  unfolding normalize_name_def Let_def by (simp add: eval_defs)

lemma nn_Punta_Lara: "normalize_name ucd (PyStr (str_of ''Punta Lara'')) = str_of ''punta lara''"
  unfolding normalize_name_def Let_def by (simp add: eval_defs)

lemma nn_Mar_Chiquita: "normalize_name ucd (PyStr (str_of ''Mar Chiquita'')) = str_of ''mar chiquita''"
  unfolding normalize_name_def Let_def by (simp add: eval_defs)

lemmas ex_nns = nn_Otamendi nn_OTAMENDI nn_otamendi nn_Otamendy nn_Punta_Lara nn_Mar_Chiquita

lemma ex_matcher_sound: "\<forall>w ps n c. set (ex_matcher w ps n c) \<subseteq> set ps"
proof (intro allI)
  fix w ps n c
  have "set (ex_matcher w ps n c) \<subseteq> set (filter (\<lambda>p. w = str_of ''otamendy'' \<and> p = str_of ''otamendi'') ps)"
    unfolding ex_matcher_def by (rule set_take_subset)
  then show "set (ex_matcher w ps n c) \<subseteq> set ps" by auto
qed

lemma ex_norm_to_key:
  "build_norm_to_key ucd (map fst ex_mapping) []
     = [(str_of ''otamendi'', str_of ''OTAMENDI''), (str_of ''punta lara'', str_of ''Punta Lara'')]"
  by (simp add: ex_mapping_def Let_def ex_nns str_of_empty_iff str_of_eq_iff)

lemma fix_fill_example: "fix_fill ucd ex_matcher ex_mapping ex_recs = Inr ex_unified"
  unfolding fix_fill_def ex_norm_to_key
  unfolding ex_recs_def ex_mapping_def ex_unified_def visit_records.simps visit_record_def Let_def
  by (simp add: dict_get_def nombre_def str_of_eq_iff str_of_empty_iff subscript_def
        ex_nns ex_matcher_def enrich_def report_not_found_def fill_fields_def dict_set_def)

lemma ex_matched_keys:
  "matched_key ucd ex_matcher ex_mapping (ex_recs ! 0) = Some (str_of ''Otamendi'')"
  "matched_key ucd ex_matcher ex_mapping (ex_recs ! 1) = Some (str_of ''Punta Lara'')"
  "matched_key ucd ex_matcher ex_mapping (ex_recs ! 2) = Some (str_of ''OTAMENDI'')"
  "matched_key ucd ex_matcher ex_mapping (ex_recs ! 3) = Some (str_of ''OTAMENDI'')"
  "matched_key ucd ex_matcher ex_mapping (ex_recs ! 4) = None"
  "matched_key ucd ex_matcher ex_mapping (ex_recs ! 5) = None"
  unfolding matched_key_def ex_norm_to_key
  unfolding ex_recs_def ex_mapping_def
  by (simp_all add: dict_get_def nombre_def str_of_eq_iff str_of_empty_iff ex_nns ex_matcher_def)

theorem fix_fill_non_destructive_witness:
  "fix_fill ucd ex_matcher ex_mapping ex_recs = Inr ex_unified
   \<and> length (records ex_unified) = length ex_recs
   \<and> not_found ex_unified
       = map (\<lambda>r. dict_get r nombre) (filter (\<lambda>r. \<not> matches_some_tier ucd ex_matcher ex_mapping r) ex_recs)
   \<and> updated ex_unified = length (filter (matches_some_tier ucd ex_matcher ex_mapping) ex_recs)
   \<and> not_found ex_unified = [PyStr (str_of ''Mar Chiquita''), PyNone]
   \<and> matched_key ucd ex_matcher ex_mapping (ex_recs ! 1) = Some (str_of ''Punta Lara'')
   \<and> records ex_unified ! 1
       = [(nombre, PyStr (str_of ''Punta Lara'')), (str_of ''Fuente'', PyStr (str_of ''x'')),
          (str_of ''Horarios'', PyStr (str_of ''9 a 18''))]
   \<and> matched_key ucd ex_matcher ex_mapping (ex_recs ! 2) = Some (str_of ''OTAMENDI'')
   \<and> records ex_unified ! 2
       = [(nombre, PyStr (str_of ''otamendi'')), (str_of ''Costo'', PyStr (str_of ''Pago''))]
   \<and> matched_key ucd ex_matcher ex_mapping (ex_recs ! 4) = None
   \<and> records ex_unified ! 4 = ex_recs ! 4
   \<and> records ex_unified ! 5 = ex_recs ! 5"
proof -
  from fix_fill_non_destructive [OF ex_matcher_sound, of ucd ex_mapping ex_recs]
  obtain st where st: "fix_fill ucd ex_matcher ex_mapping ex_recs = Inr st"
      "length (records st) = length ex_recs"
      "not_found st
         = map (\<lambda>r. dict_get r nombre) (filter (\<lambda>r. \<not> matches_some_tier ucd ex_matcher ex_mapping r) ex_recs)"
      "updated st = length (filter (matches_some_tier ucd ex_matcher ex_mapping) ex_recs)"
    by blast
  from st(1) have "st = ex_unified" by (simp add: fix_fill_example)
  with st have "length (records ex_unified) = length ex_recs"
      "not_found ex_unified
         = map (\<lambda>r. dict_get r nombre) (filter (\<lambda>r. \<not> matches_some_tier ucd ex_matcher ex_mapping r) ex_recs)"
      "updated ex_unified = length (filter (matches_some_tier ucd ex_matcher ex_mapping) ex_recs)"
    by simp_all
  moreover have "not_found ex_unified = [PyStr (str_of ''Mar Chiquita''), PyNone]"
    by (simp add: ex_unified_def)
  moreover have "records ex_unified ! 1
       = [(nombre, PyStr (str_of ''Punta Lara'')), (str_of ''Fuente'', PyStr (str_of ''x'')),
          (str_of ''Horarios'', PyStr (str_of ''9 a 18''))]"
    "records ex_unified ! 2
       = [(nombre, PyStr (str_of ''otamendi'')), (str_of ''Costo'', PyStr (str_of ''Pago''))]"
    "records ex_unified ! 4 = ex_recs ! 4" "records ex_unified ! 5 = ex_recs ! 5"
    by (simp_all add: ex_unified_def ex_recs_def)
  ultimately show ?thesis using fix_fill_example ex_matched_keys by simp
qed

end
